theory Spec2Isabelle
  imports Main
begin

section \<open>Strings and numbers of the host language\<close>

text \<open>
  Text is modelled as \<^typ>\<open>string\<close>, one \<^typ>\<open>char\<close> per code unit. A chunk of a
  response body is modelled by the text \<open>decoder.decode(value, {stream: true})\<close> returns
  for it: a streaming decoder holds back an incomplete multi-byte sequence until the
  rest of it arrives, so however the bytes of a body are cut, the texts of the chunks
  concatenate to the text of the body, and every way of cutting the text is covered.
\<close>

definition newline :: char where
  "newline = CHR 0x0A"

text \<open>
  \<open>split\<close> of a string on the line feed: the segments between line feeds. The result
  is never empty: the empty string gives one empty segment. A character other than the
  line feed joins the first segment of what follows it (the branch for an empty
  recursive result is there for the case distinction only; it is never taken).
\<close>

fun split_nl :: "string \<Rightarrow> string list" where
  "split_nl [] = [[]]"
| "split_nl (c # cs) =
     (if c = newline then [] # split_nl cs
      else (case split_nl cs of
              l # ls \<Rightarrow> (c # l) # ls
            | [] \<Rightarrow> [[c]]))"

text \<open>\<open>s.startsWith(p)\<close> and \<open>s.slice(n)\<close> for \<open>0 \<le> n\<close>.\<close>

definition startsWith :: "string \<Rightarrow> string \<Rightarrow> bool" where
  "startsWith p s \<longleftrightarrow> take (length p) s = p"

definition slice :: "nat \<Rightarrow> string \<Rightarrow> string" where
  "slice n s = drop n s"

text \<open>Decimal rendering of a non-negative integer: \<open>n.toString()\<close>, \<open>`${n}`\<close>.\<close>

definition digit_char :: "nat \<Rightarrow> char" where
  "digit_char d = char_of (48 + d)"

function toString :: "nat \<Rightarrow> string" where
  "toString n =
     (if n < 10 then [digit_char n]
      else toString (n div 10) @ [digit_char (n mod 10)])"
  by pat_completeness auto
termination
  by (relation "measure (\<lambda>n. n)") auto

declare toString.simps [simp del]


section \<open>The chat stream: \<open>ChatAPI.streamChat\<close> (src/api/chat.ts)\<close>

record Reference =
  ref_id :: nat
  ref_text :: string
  ref_source :: string
  ref_page :: nat
  ref_chunk_id :: nat
  ref_source_info :: string

text \<open>
  \<open>interface StreamingResponse\<close>. The discriminant is kept as the string that arrives,
  since the cast \<open>data as StreamingResponse\<close> checks nothing at run time.
\<close>

record StreamingResponse =
  sr_type :: string
  sr_content :: "string option"
  sr_full_content :: "string option"
  sr_error :: "string option"
  sr_timestamp :: string
  sr_references :: "Reference list option"

text \<open>
  What the generator does that its surroundings can observe: a frame handed to the
  consumer (\<open>yield data\<close>) or a diagnostic for a dropped line (\<open>console.warn\<close>).
\<close>

datatype emission = Yield StreamingResponse | Warn string

fun yielded :: "emission list \<Rightarrow> StreamingResponse list" where
  "yielded [] = []"
| "yielded (Yield d # es) = d # yielded es"
| "yielded (Warn l # es) = yielded es"

text \<open>A value thrown: an \<open>Error\<close> with its message, or anything else.\<close>

datatype thrown = Error string | NotAnError

text \<open>\<open>data.type === 'message_complete' || data.type === 'error'\<close>\<close>

definition terminal :: "StreamingResponse \<Rightarrow> bool" where
  "terminal d \<longleftrightarrow> sr_type d = ''message_complete'' \<or> sr_type d = ''error''"

text \<open>
  The \<open>for (const line of lines)\<close> loop. The parameter \<open>parse\<close> stands for the body of
  the inner \<open>try\<close> up to the \<open>yield\<close>: \<open>JSON.parse(line.slice(6))\<close> followed by the
  logging expression that reads \<open>data.type\<close> and \<open>data.content\<close>; it is \<open>None\<close> when
  that throws, and the \<open>catch\<close> then warns and the loop goes on. The second component
  tells whether the generator executed \<open>return\<close>.
\<close>

fun for_lines :: "(string \<Rightarrow> StreamingResponse option) \<Rightarrow> string list \<Rightarrow> emission list \<times> bool" where
  "for_lines parse [] = ([], False)"
| "for_lines parse (line # rest) =
     (if startsWith ''data: '' line then
        (case parse (slice 6 line) of
           Some d \<Rightarrow>
             if terminal d then ([Yield d], True)
             else (case for_lines parse rest of (out, r) \<Rightarrow> (Yield d # out, r))
         | None \<Rightarrow> (case for_lines parse rest of (out, r) \<Rightarrow> (Warn line # out, r)))
      else for_lines parse rest)"

text \<open>How the body stream ends: \<open>done\<close>, or \<open>reader.read()\<close> rejects.\<close>

datatype body_end = Done | ReadFails thrown

fun end_thrown :: "body_end \<Rightarrow> thrown option" where
  "end_thrown Done = None"
| "end_thrown (ReadFails e) = Some e"

text \<open>
  The \<open>while (true)\<close> loop over \<open>reader.read()\<close>, with the residual \<open>buffer\<close>. The list
  holds the chunks still to arrive. On \<open>done\<close> the loop breaks and the function ends:
  whatever is left in \<open>buffer\<close> is not looked at again.
\<close>

fun read_loop :: "(string \<Rightarrow> StreamingResponse option) \<Rightarrow> string \<Rightarrow> string list \<Rightarrow> body_end
    \<Rightarrow> emission list \<times> thrown option" where
  "read_loop parse buffer [] e = ([], end_thrown e)"
| "read_loop parse buffer (v # vs) e =
     (let lines = split_nl (buffer @ v) in
      case for_lines parse (butlast lines) of
        (out, True) \<Rightarrow> (out, None)
      | (out, False) \<Rightarrow>
          (case read_loop parse (last lines) vs e of (out', x) \<Rightarrow> (out @ out', x)))"

text \<open>What the network does with the request.\<close>

datatype transport =
    FetchRejected thrown
  | NotOk nat string
  | NotOkTextFails nat thrown
  | NoBody
  | Body "string list" body_end

text \<open>The \<open>try\<close> block of \<open>streamChat\<close>: what it emits, and what it throws if it throws.\<close>

fun streamChat_try :: "(string \<Rightarrow> StreamingResponse option) \<Rightarrow> transport
    \<Rightarrow> emission list \<times> thrown option" where
  "streamChat_try parse (FetchRejected e) = ([], Some e)"
| "streamChat_try parse (NotOk status errorText) =
     ([], Some (Error (''HTTP error! status: '' @ toString status @ '', body: '' @ errorText)))"
| "streamChat_try parse (NotOkTextFails status e) = ([], Some e)"
| "streamChat_try parse NoBody = ([], Some (Error ''Unable to read response stream''))"
| "streamChat_try parse (Body vs e) = read_loop parse [] vs e"

text \<open>\<open>error instanceof Error ? error.message : 'Unknown error'\<close>\<close>

fun error_message :: "thrown \<Rightarrow> string" where
  "error_message (Error m) = m"
| "error_message NotAnError = ''Unknown error''"

text \<open>The frame built in the \<open>catch\<close>; \<open>now\<close> is \<open>new Date().toISOString()\<close> there.\<close>

definition error_frame :: "thrown \<Rightarrow> string \<Rightarrow> StreamingResponse" where
  "error_frame err now =
     \<lparr>sr_type = ''error'', sr_content = None, sr_full_content = None,
      sr_error = Some (error_message err), sr_timestamp = now, sr_references = None\<rparr>"

text \<open>
  \<open>streamChat\<close> with its \<open>catch\<close>. The result pairs the emissions with the exception
  that leaves the generator, if any. The request itself is not a parameter: what it
  determines is the answer of the network, which is.
\<close>

definition streamChat :: "(string \<Rightarrow> StreamingResponse option) \<Rightarrow> string \<Rightarrow> transport
    \<Rightarrow> emission list \<times> thrown option" where
  "streamChat parse now tr =
     (case streamChat_try parse tr of
        (out, None) \<Rightarrow> (out, None)
      | (out, Some err) \<Rightarrow> (out @ [Yield (error_frame err now)], None))"

text \<open>The same loop run once on the whole text of the body, for comparison.\<close>

definition decode_whole :: "(string \<Rightarrow> StreamingResponse option) \<Rightarrow> string \<Rightarrow> body_end
    \<Rightarrow> emission list \<times> thrown option" where
  "decode_whole parse s e =
     (case for_lines parse (butlast (split_nl s)) of
        (out, True) \<Rightarrow> (out, None)
      | (out, False) \<Rightarrow> (out, end_thrown e))"


section \<open>Citation markers: \<open>processContent\<close> in \<open>MessageBubble\<close> (src/components/MessageBubble.tsx)\<close>

text \<open>The digit class of the regular expressions below: \<open>0\<close> to \<open>9\<close>.\<close>

definition is_digit :: "char \<Rightarrow> bool" where
  "is_digit c \<longleftrightarrow> c \<in> set ''0123456789''"

text \<open>
  The marker pattern (an opening bracket, one or more digits, a closing bracket) tried
  at the start of a text: the digits matched and
  the text after the match. After \<open>[\<close> the longest run of digits is taken; giving
  digits back cannot help, since the next character has to be \<open>]\<close>.
\<close>

fun match_marker :: "string \<Rightarrow> (string \<times> string) option" where
  "match_marker [] = None"
| "match_marker (c # cs) =
     (if c = CHR ''['' then
        (let ds = takeWhile is_digit cs; r = dropWhile is_digit cs in
         if ds \<noteq> [] \<and> r \<noteq> [] \<and> hd r = CHR '']'' then Some (ds, tl r) else None)
      else None)"

lemma match_marker_shorter:
  "match_marker s = Some (ds, rest) \<Longrightarrow> length rest < length s"
proof (cases s)
  case Nil
  then show "match_marker s = Some (ds, rest) \<Longrightarrow> ?thesis" by simp
next
  case (Cons c cs)
  assume "match_marker s = Some (ds, rest)"
  with Cons have "rest = tl (dropWhile is_digit cs)"
    by (auto simp: Let_def split: if_splits)
  moreover have "length (dropWhile is_digit cs) \<le> length cs"
    by (rule length_dropWhile_le)
  ultimately show ?thesis using Cons by simp
qed

text \<open>
  \<open>block.content.split\<close> on the marker pattern with a capture group: the text before
  each match, the match itself (the
  capture group), and at the end the text after the last match. \<open>acc\<close> is the text
  passed over since the last match.
\<close>

function split_markers :: "string \<Rightarrow> string \<Rightarrow> string list" where
  "split_markers acc [] = [acc]"
| "split_markers acc (c # cs) =
     (case match_marker (c # cs) of
        Some (ds, rest) \<Rightarrow> acc # (CHR ''['' # ds @ '']'') # split_markers [] rest
      | None \<Rightarrow> split_markers (acc @ [c]) cs)"
  by pat_completeness auto
termination
proof (relation "measure (\<lambda>(acc, s). length s)")
  show "wf (measure (\<lambda>(acc, s). length s))" by simp
next
  fix acc :: string and c cs x ds rest
  assume "match_marker (c # cs) = Some x" and "(ds, rest) = x"
  then have "length rest < length (c # cs)"
    using match_marker_shorter [of "c # cs" ds rest] by (simp del: match_marker.simps)
  then show "(([], rest), acc, c # cs) \<in> measure (\<lambda>(acc, s). length s)" by simp
next
  fix acc :: string and c :: char and cs :: string
  show "((acc @ [c], cs), acc, c # cs) \<in> measure (\<lambda>(acc, s). length s)" by simp
qed

text \<open>\<open>part.match\<close> on the marker pattern: the digits of the first marker in the part, if any.\<close>

fun find_marker :: "string \<Rightarrow> string option" where
  "find_marker [] = None"
| "find_marker (c # cs) =
     (case match_marker (c # cs) of
        Some (ds, rest) \<Rightarrow> Some ds
      | None \<Rightarrow> find_marker cs)"

text \<open>
  \<open>parseInt\<close> on a run of digits. The source computes in doubles, which are exact up
  to \<open>2^53\<close>; a larger number indexes past the end of any array both there and here.
\<close>

definition digit_val :: "char \<Rightarrow> nat" where
  "digit_val c = of_char c - 48"

definition parseInt :: "string \<Rightarrow> nat" where
  "parseInt ds = foldl (\<lambda>n c. 10 * n + digit_val c) 0 ds"

text \<open>\<open>message.references[refIndex]\<close>, \<open>undefined\<close> outside the array.\<close>

definition index_refs :: "Reference list \<Rightarrow> int \<Rightarrow> Reference option" where
  "index_refs refs i = (if 0 \<le> i \<and> i < int (length refs) then Some (refs ! nat i) else None)"

text \<open>
  The two \<open>onClick\<close> handlers a citation is given: the one that calls
  \<open>onReferenceClick([ref])\<close> and the one that only logs.
\<close>

datatype click = onReferenceClick "Reference list" | LogInvalidReference

datatype element =
    ReferenceSuperscript string click "string option"
  | ReactMarkdown string
  | Span string

text \<open>The function mapped over the parts.\<close>

definition render_part :: "Reference list option \<Rightarrow> string \<Rightarrow> element" where
  "render_part references part =
     (case find_marker part of
        Some m \<Rightarrow>
          (case (case references of
                   Some refs \<Rightarrow> if length refs > 0 then index_refs refs (int (parseInt m) - 1) else None
                 | None \<Rightarrow> None) of
             Some ref \<Rightarrow> ReferenceSuperscript m (onReferenceClick [ref]) None
           | None \<Rightarrow> ReferenceSuperscript m LogInvalidReference (Some ''opacity-50 cursor-not-allowed''))
      | None \<Rightarrow> if part \<noteq> [] then ReactMarkdown part else Span part)"

definition processContent :: "Reference list option \<Rightarrow> string \<Rightarrow> element list" where
  "processContent references content = map (render_part references) (split_markers [] content)"


text \<open>The piece of the message text an element stands for.\<close>

fun element_source :: "element \<Rightarrow> string" where
  "element_source (ReferenceSuperscript number onClick className) = CHR ''['' # number @ '']''"
| "element_source (ReactMarkdown s) = s"
| "element_source (Span s) = s"

text \<open>
  Resolution as the specification words it: marker \<open>k\<close> resolves to \<open>references[k-1]\<close>
  when \<open>k\<close> is within \<open>[1, length(references)]\<close>, and to nothing when it is out of
  range or there is no reference list.
\<close>

definition spec_resolve :: "Reference list option \<Rightarrow> nat \<Rightarrow> Reference option" where
  "spec_resolve references k =
     (case references of
        None \<Rightarrow> None
      | Some refs \<Rightarrow> if 1 \<le> k \<and> k \<le> length refs then Some (refs ! (k - 1)) else None)"

text \<open>A marker: \<open>[\<close>, one or more digits, \<open>]\<close>.\<close>

definition is_marker :: "string \<Rightarrow> bool" where
  "is_marker p \<longleftrightarrow> (\<exists>ds. ds \<noteq> [] \<and> (\<forall>c\<in>set ds. is_digit c) \<and> p = CHR ''['' # ds @ '']'')"

text \<open>
  What the claim asks of one rendered element: a citation carries a run of digits and
  is clickable exactly when its number resolves; literal text holds no marker.
\<close>

definition element_ok :: "Reference list option \<Rightarrow> element \<Rightarrow> bool" where
  "element_ok references el =
     (case el of
        ReferenceSuperscript number onClick className \<Rightarrow>
          number \<noteq> [] \<and> (\<forall>c\<in>set number. is_digit c) \<and>
          (case spec_resolve references (parseInt number) of
             Some ref \<Rightarrow> onClick = onReferenceClick [ref] \<and> className = None
           | None \<Rightarrow> onClick = LogInvalidReference \<and>
               className = Some ''opacity-50 cursor-not-allowed'')
      | ReactMarkdown s \<Rightarrow> s \<noteq> [] \<and> find_marker s = None
      | Span s \<Rightarrow> s = [])"

text \<open>
  Literal elements, and the shape of a rendering in which every marker of the text is a
  citation of its own: a literal, then citation and literal in turn, ending with a
  literal, so that no two literals and no two citations are neighbours.
\<close>

fun is_literal :: "element \<Rightarrow> bool" where
  "is_literal (ReferenceSuperscript number onClick className) = False"
| "is_literal (ReactMarkdown s) = True"
| "is_literal (Span s) = True"

fun alternates :: "element list \<Rightarrow> bool" where
  "alternates [] = False"
| "alternates [el] = is_literal el"
| "alternates (el # cite # rest) = (is_literal el \<and> \<not> is_literal cite \<and> alternates rest)"

text \<open>The literal element for a piece of text, and the citation for a run of digits.\<close>

definition literal_element :: "string \<Rightarrow> element" where
  "literal_element l = (if l \<noteq> [] then ReactMarkdown l else Span [])"

definition citation_element :: "Reference list option \<Rightarrow> string \<Rightarrow> element" where
  "citation_element references ds =
     (case spec_resolve references (parseInt ds) of
        Some ref \<Rightarrow> ReferenceSuperscript ds (onReferenceClick [ref]) None
      | None \<Rightarrow> ReferenceSuperscript ds LogInvalidReference (Some ''opacity-50 cursor-not-allowed''))"

text \<open>No marker starts inside \<open>acc\<close> when \<open>acc\<close> is followed by \<open>s\<close>.\<close>

definition clean :: "string \<Rightarrow> string \<Rightarrow> bool" where
  "clean acc s \<longleftrightarrow> (\<forall>i<length acc. match_marker (drop i (acc @ s)) = None)"


section \<open>The application state and its handlers (src/App.tsx)\<close>

text \<open>
  \<open>s.trim()\<close>: white space stripped at both ends. Of the white space of the language
  the characters representable here are the six ASCII ones and the no-break space.
\<close>

definition is_space :: "char \<Rightarrow> bool" where
  "is_space c \<longleftrightarrow> c \<in> set [CHR 0x09, CHR 0x0A, CHR 0x0B, CHR 0x0C, CHR 0x0D, CHR 0x20, CHR 0xA0]"

definition trim :: "string \<Rightarrow> string" where
  "trim s = rev (dropWhile is_space (rev (dropWhile is_space s)))"

subsection \<open>Data\<close>

datatype block_type = Text | Image | Audio | Pdf

record ContentBlock =
  cb_type :: block_type
  cb_content :: string
  cb_thumbnail :: "string option"
  cb_transcription :: "string option"
  cb_filename :: "string option"
  cb_filesize :: "nat option"

datatype role = User | Assistant | Tool

text \<open>
  \<open>interface Message\<close>. Its \<open>timestamp\<close>, like the \<open>id\<close> of a toast, is a clock reading
  kept for display only; neither is read by any handler, and both are left out.
\<close>

record Message =
  msg_id :: string
  msg_role :: role
  msg_contentBlocks :: "ContentBlock list"
  msg_references :: "Reference list option"
  msg_isStreaming :: "bool option"

record File =
  file_name :: string
  file_size :: nat

record PendingImage =
  pi_id :: string
  pi_file :: File
  pi_dataUrl :: string
  pi_thumbnail :: string

record DocumentChunk =
  chunk_id :: string
  chunk_content :: string
  chunk_metadata :: string

record PendingPDF =
  pp_id :: string
  pp_file :: File
  pp_filename :: string
  pp_size :: nat
  pp_processed :: "bool option"
  pp_chunks :: "DocumentChunk list option"

record PendingAudio =
  pa_id :: string
  pa_file :: File
  pa_filename :: string
  pa_duration :: nat
  pa_transcription :: "string option"
  pa_processed :: "bool option"

record PDFProcessing =
  isProcessing :: bool
  progress :: nat
  step :: string
  message :: string

datatype toast_type = T_success | T_error | T_warning | T_info

record ToastMessage =
  toast_type :: toast_type
  toast_title :: string
  toast_description :: "string option"

text \<open>The \<open>useState\<close> cells of \<open>App\<close> that the handlers below read or write.\<close>

record App =
  inputValue :: string
  messages :: "Message list"
  isStreaming :: bool
  toast :: "ToastMessage option"
  pendingImages :: "PendingImage list"
  pendingPDFs :: "PendingPDF list"
  pendingAudios :: "PendingAudio list"
  pdfProcessing :: PDFProcessing
  model :: string
  knowledgeBase :: string

definition no_processing :: PDFProcessing where
  "no_processing = \<lparr>isProcessing = False, progress = 0, step = [], message = []\<rparr>"

definition initial_App :: App where
  "initial_App =
     \<lparr>inputValue = [], messages = [], isStreaming = False, toast = None,
      pendingImages = [], pendingPDFs = [], pendingAudios = [],
      pdfProcessing = no_processing, model = ''gpt-4o'', knowledgeBase = ''default''\<rparr>"

text \<open>The events of the document-processing stream, as \<open>processPDF\<close> reads them.\<close>

record PdfEvent =
  pe_type :: string
  pe_progress :: "nat option"
  pe_step :: "string option"
  pe_message :: "string option"
  pe_chunks :: "DocumentChunk list option"
  pe_error :: "string option"

subsection \<open>\<open>processPDF\<close>\<close>

text \<open>
  An optional field, or a default where it is missing. This is also \<open>x || d\<close> wherever a
  falsy value of the field gives what the fallback gives (\<open>0\<close> for \<open>0\<close>, the empty string
  for the empty string), and an empty array is truthy.
\<close>

fun or_else :: "'a option \<Rightarrow> 'a \<Rightarrow> 'a" where
  "or_else None d = d"
| "or_else (Some x) d = x"

text \<open>\<open>x || d\<close> for an optional string and any fallback: the empty string is falsy too.\<close>

fun or_else_text :: "string option \<Rightarrow> string \<Rightarrow> string" where
  "or_else_text None d = d"
| "or_else_text (Some x) d = (if x = [] then d else x)"

text \<open>
  \<open>setPendingPDFs(prev => prev.map(pdf => pdf.id === id ? {...pdf, processed: true, chunks} : pdf))\<close>
\<close>

definition mark_processed :: "string \<Rightarrow> DocumentChunk list option \<Rightarrow> App \<Rightarrow> App" where
  "mark_processed pid chunks s =
     s\<lparr>pendingPDFs :=
         map (\<lambda>pdf. if pp_id pdf = pid then pdf\<lparr>pp_processed := Some True, pp_chunks := chunks\<rparr>
                     else pdf)
             (pendingPDFs s)\<rparr>"

text \<open>
  How a \<open>try\<close> block ends: it runs to its end, it returns from the enclosing function
  with the chunks of a result (\<open>undefined\<close> when the event has none), or it throws.
\<close>

datatype try_end = Completed App | Returned "DocumentChunk list option" App | Thrown thrown

text \<open>
  The inner \<open>try\<close> of the line loop: \<open>JSON.parse(data)\<close>, then the dispatch on
  \<open>parsed.type\<close>. \<open>parse\<close> is \<open>None\<close> where the parse, or reading \<open>parsed.type\<close>,
  throws. An event of type \<open>error\<close> throws inside this \<open>try\<close>.
\<close>

definition pdf_line_try :: "(string \<Rightarrow> PdfEvent option) \<Rightarrow> string \<Rightarrow> string \<Rightarrow> App \<Rightarrow> try_end" where
  "pdf_line_try parse pid data s =
     (case parse data of
        None \<Rightarrow> Thrown (Error ''SyntaxError'')
      | Some parsed \<Rightarrow>
          if pe_type parsed = ''progress'' then
            Completed (s\<lparr>pdfProcessing :=
              \<lparr>isProcessing = True, progress = or_else (pe_progress parsed) 0,
               step = or_else (pe_step parsed) [], message = or_else (pe_message parsed) []\<rparr>\<rparr>)
          else if pe_type parsed = ''result'' then
            Returned (pe_chunks parsed) (mark_processed pid (pe_chunks parsed) s)
          else if pe_type parsed = ''error'' then
            Thrown (Error (or_else (pe_error parsed) []))
          else Completed s)"

text \<open>
  The \<open>for (const line of lines)\<close> loop of \<open>processPDF\<close>. Its \<open>catch\<close> warns and
  continues with the next line, whatever was thrown in the \<open>try\<close>. The first component
  is \<open>Some\<close> when the function returned from inside the loop.
\<close>

fun pdf_for_lines :: "(string \<Rightarrow> PdfEvent option) \<Rightarrow> string \<Rightarrow> string list \<Rightarrow> App
    \<Rightarrow> DocumentChunk list option option \<times> App" where
  "pdf_for_lines parse pid [] s = (None, s)"
| "pdf_for_lines parse pid (line # rest) s =
     (if startsWith ''data: '' line then
        (let data = trim (slice 6 line) in
         if data = ''[DONE]'' then pdf_for_lines parse pid rest s
         else if data = [] then pdf_for_lines parse pid rest s
         else (case pdf_line_try parse pid data s of
                 Completed s' \<Rightarrow> pdf_for_lines parse pid rest s'
               | Returned chunks s' \<Rightarrow> (Some chunks, s')
               | Thrown e \<Rightarrow> pdf_for_lines parse pid rest s))
      else pdf_for_lines parse pid rest s)"

text \<open>How the read loop is left.\<close>

datatype loop_exit = Loop_returned "DocumentChunk list option" | Loop_done string | Loop_threw thrown

fun pdf_read_loop :: "(string \<Rightarrow> PdfEvent option) \<Rightarrow> string \<Rightarrow> string \<Rightarrow> string list \<Rightarrow> body_end
    \<Rightarrow> App \<Rightarrow> loop_exit \<times> App" where
  "pdf_read_loop parse pid buffer [] Done s = (Loop_done buffer, s)"
| "pdf_read_loop parse pid buffer [] (ReadFails e) s = (Loop_threw e, s)"
| "pdf_read_loop parse pid buffer (v # vs) e s =
     (let lines = split_nl (buffer @ v) in
      case pdf_for_lines parse pid (butlast lines) s of
        (Some chunks, s') \<Rightarrow> (Loop_returned chunks, s')
      | (None, s') \<Rightarrow> pdf_read_loop parse pid (last lines) vs e s')"

text \<open>
  \<open>// Process final buffer data\<close>: after the loop, a residual that starts with the
  prefix is parsed, and a \<open>result\<close> in it is taken; anything else falls through to the
  end of the function, which then returns \<open>undefined\<close>.
\<close>

definition pdf_final_buffer :: "(string \<Rightarrow> PdfEvent option) \<Rightarrow> string \<Rightarrow> string \<Rightarrow> App
    \<Rightarrow> DocumentChunk list option \<times> App" where
  "pdf_final_buffer parse pid buffer s =
     (if trim buffer \<noteq> [] \<and> startsWith ''data: '' buffer then
        (let data = trim (slice 6 buffer) in
         if data \<noteq> ''[DONE]'' \<and> data \<noteq> [] then
           (case parse data of
              None \<Rightarrow> (None, s)
            | Some parsed \<Rightarrow>
                if pe_type parsed = ''result'' then
                  (pe_chunks parsed, mark_processed pid (pe_chunks parsed) s)
                else (None, s))
         else (None, s))
      else (None, s))"

text \<open>
  What the network does with the processing request. \<open>FileReader\<close> rejects with an
  event, which is not an \<open>Error\<close>. \<open>response.ok\<close> is not looked at.
\<close>

datatype pdf_transport =
    ReadFileFails
  | PdfFetchRejected thrown
  | PdfNoBody
  | PdfBody "string list" body_end

text \<open>The outer \<open>try\<close> of \<open>processPDF\<close>: the value returned or the value thrown.\<close>

fun processPDF_try :: "(string \<Rightarrow> PdfEvent option) \<Rightarrow> string \<Rightarrow> pdf_transport \<Rightarrow> App
    \<Rightarrow> (thrown + DocumentChunk list option) \<times> App" where
  "processPDF_try parse pid ReadFileFails s = (Inl NotAnError, s)"
| "processPDF_try parse pid (PdfFetchRejected e) s = (Inl e, s)"
| "processPDF_try parse pid PdfNoBody s = (Inl (Error ''Response body is empty''), s)"
| "processPDF_try parse pid (PdfBody vs e) s =
     (case pdf_read_loop parse pid [] vs e s of
        (Loop_returned chunks, s') \<Rightarrow> (Inr chunks, s')
      | (Loop_threw err, s') \<Rightarrow> (Inl err, s')
      | (Loop_done buffer, s') \<Rightarrow>
          (case pdf_final_buffer parse pid buffer s' of (chunks, s'') \<Rightarrow> (Inr chunks, s'')))"

text \<open>
  \<open>processPDF\<close>: the progress record is set, the \<open>try\<close> runs, the \<open>catch\<close> shows the
  failure toast and throws again, and \<open>finally\<close> clears the progress record.
\<close>

definition processPDF :: "(string \<Rightarrow> PdfEvent option) \<Rightarrow> PendingPDF \<Rightarrow> pdf_transport \<Rightarrow> App
    \<Rightarrow> (thrown + DocumentChunk list option) \<times> App" where
  "processPDF parse pdfFile tr s =
     (case processPDF_try parse (pp_id pdfFile) tr
             (s\<lparr>pdfProcessing := \<lparr>isProcessing = True, progress = 0, step = ''preparing'',
                                   message = ''Preparing to process PDF...''\<rparr>\<rparr>) of
        (Inr chunks, s') \<Rightarrow> (Inr chunks, s'\<lparr>pdfProcessing := no_processing\<rparr>)
      | (Inl err, s') \<Rightarrow>
          (Inl err,
           s'\<lparr>toast := Some \<lparr>toast_type = T_error, toast_title = ''PDF Processing Failed'',
                  toast_description = Some (''Error processing '' @ file_name (pp_file pdfFile)
                                            @ '': '' @ error_message err)\<rparr>,
              pdfProcessing := no_processing\<rparr>))"

subsection \<open>Staging: \<open>handleUploadImage\<close>, \<open>handleUploadPDFNew\<close>, \<open>handleUploadAudio\<close>\<close>

text \<open>
  In each handler \<open>now\<close> is the reading of \<open>Date.now()\<close> that becomes the id. For an
  image, \<open>imageData\<close> is what the file reader delivers to \<open>onload\<close>.
\<close>

definition handleUploadImage :: "File \<Rightarrow> string \<Rightarrow> nat \<Rightarrow> App \<Rightarrow> App" where
  "handleUploadImage file imageData now s =
     (if isStreaming s then s
      else s\<lparr>pendingImages := pendingImages s @
                 [\<lparr>pi_id = toString now, pi_file = file, pi_dataUrl = imageData,
                   pi_thumbnail = imageData\<rparr>],
             toast := Some \<lparr>toast_type = T_info, toast_title = ''Image Uploaded'',
                 toast_description = Some ''Please enter your question, then click send''\<rparr>\<rparr>)"

text \<open>
  \<open>(file.size / 1024 / 1024).toFixed(1)\<close>: the quotient is exact in a double (a division
  by a power of two), and \<open>toFixed\<close> rounds its decimal expansion to the nearest tenth,
  a tie upwards.
\<close>

definition megabytes_toFixed1 :: "nat \<Rightarrow> string" where
  "megabytes_toFixed1 n =
     (let tenths = (10 * n + 524288) div 1048576
      in toString (tenths div 10) @ ''.'' @ toString (tenths mod 10))"

definition handleUploadPDFNew :: "(string \<Rightarrow> PdfEvent option) \<Rightarrow> File \<Rightarrow> pdf_transport \<Rightarrow> nat
    \<Rightarrow> App \<Rightarrow> App" where
  "handleUploadPDFNew parse file tr now s =
     (if isStreaming s \<or> isProcessing (pdfProcessing s) then s
      else if file_size file > 50 * 1024 * 1024 then
        s\<lparr>toast := Some \<lparr>toast_type = T_error, toast_title = ''PDF File Too Large'',
              toast_description = Some (''File size '' @ megabytes_toFixed1 (file_size file)
                                        @ ''MB exceeds limit (50MB)'')\<rparr>\<rparr>
      else
        (let pendingPDF = \<lparr>pp_id = toString now, pp_file = file, pp_filename = file_name file,
                            pp_size = file_size file, pp_processed = Some False, pp_chunks = None\<rparr>;
             s1 = s\<lparr>pendingPDFs := pendingPDFs s @ [pendingPDF],
                    toast := Some \<lparr>toast_type = T_info, toast_title = ''PDF Processing'',
                        toast_description = Some (''Parsing '' @ file_name file @ ''...'')\<rparr>\<rparr>
         in case processPDF parse pendingPDF tr s1 of
              (Inr (Some chunks), s2) \<Rightarrow>
                if chunks \<noteq> [] then
                  (mark_processed (pp_id pendingPDF) (Some chunks) s2)
                    \<lparr>toast := Some \<lparr>toast_type = T_success,
                        toast_title = ''PDF Processing Complete'',
                        toast_description = Some (file_name file @ '' parsed, ''
                          @ toString (length chunks)
                          @ '' document chunks. Please enter your question and send.'')\<rparr>\<rparr>
                else s2\<lparr>pendingPDFs := filter (\<lambda>p. pp_id p \<noteq> pp_id pendingPDF) (pendingPDFs s2)\<rparr>
            | (Inr None, s2) \<Rightarrow>
                s2\<lparr>pendingPDFs := filter (\<lambda>p. pp_id p \<noteq> pp_id pendingPDF) (pendingPDFs s2)\<rparr>
            | (Inl err, s2) \<Rightarrow>
                s2\<lparr>pendingPDFs := filter (\<lambda>p. pp_id p \<noteq> pp_id pendingPDF) (pendingPDFs s2)\<rparr>))"

text \<open>What the transcription endpoint answers.\<close>

datatype audio_outcome =
    AudioFetchRejected thrown
  | AudioNotOk "string option"
  | AudioOk string nat string

definition handleUploadAudio :: "File \<Rightarrow> audio_outcome \<Rightarrow> nat \<Rightarrow> App \<Rightarrow> App" where
  "handleUploadAudio file outcome now s =
     (case outcome of
        AudioOk filename duration transcription \<Rightarrow>
          s\<lparr>pendingAudios := pendingAudios s @
                [\<lparr>pa_id = toString now, pa_file = file, pa_filename = filename,
                  pa_duration = duration, pa_transcription = Some transcription,
                  pa_processed = Some True\<rparr>],
            toast := Some \<lparr>toast_type = T_success, toast_title = ''Audio Processing Complete'',
                toast_description = Some (''Transcription: '' @ take 50 transcription
                  @ (if length transcription > 50 then ''...'' else []))\<rparr>\<rparr>
      | AudioNotOk detail \<Rightarrow>
          s\<lparr>toast := Some \<lparr>toast_type = T_error, toast_title = ''Audio Processing Failed'',
                toast_description = Some (or_else_text detail ''Audio processing failed'')\<rparr>\<rparr>
      | AudioFetchRejected err \<Rightarrow>
          s\<lparr>toast := Some \<lparr>toast_type = T_error, toast_title = ''Audio Processing Failed'',
                toast_description = Some (error_message err)\<rparr>\<rparr>)"

text \<open>The \<open>onRemoveImage\<close>, \<open>onRemovePDF\<close> and \<open>onRemoveAudio\<close> callbacks given to \<open>InputBar\<close>.\<close>

definition onRemoveImage :: "string \<Rightarrow> App \<Rightarrow> App" where
  "onRemoveImage i s = s\<lparr>pendingImages := filter (\<lambda>img. pi_id img \<noteq> i) (pendingImages s)\<rparr>"

definition onRemovePDF :: "string \<Rightarrow> App \<Rightarrow> App" where
  "onRemovePDF i s = s\<lparr>pendingPDFs := filter (\<lambda>pdf. pp_id pdf \<noteq> i) (pendingPDFs s)\<rparr>"

definition onRemoveAudio :: "string \<Rightarrow> App \<Rightarrow> App" where
  "onRemoveAudio i s = s\<lparr>pendingAudios := filter (\<lambda>audio. pa_id audio \<noteq> i) (pendingAudios s)\<rparr>"

subsection \<open>\<open>handleSend\<close> and \<open>handleStop\<close>\<close>

record ChatTurn =
  turn_role :: role
  turn_content :: string
  turn_content_blocks :: "ContentBlock list"

record ChatRequest =
  req_content :: string
  req_content_blocks :: "ContentBlock list"
  req_pdf_chunks :: "DocumentChunk list"
  req_history :: "ChatTurn list"
  req_model :: string
  req_knowledge_base :: string

text \<open>The guard on the first line of \<open>handleSend\<close>.\<close>

definition send_blocked :: "App \<Rightarrow> bool" where
  "send_blocked s \<longleftrightarrow>
     (trim (inputValue s) = [] \<and> length (pendingImages s) = 0 \<and> length (pendingAudios s) = 0)
     \<or> isStreaming s"

text \<open>
  The guard of \<open>InputBar\<close> before it calls \<open>onSend\<close> on the Enter key (the send button is
  disabled under the same condition on the text and the three collections).
\<close>

definition InputBar_sends :: "App \<Rightarrow> bool" where
  "InputBar_sends s \<longleftrightarrow>
     (trim (inputValue s) \<noteq> [] \<or> length (pendingImages s) > 0 \<or> length (pendingPDFs s) > 0
      \<or> length (pendingAudios s) > 0)
     \<and> \<not> isStreaming s"

definition text_block :: "string \<Rightarrow> ContentBlock" where
  "text_block c =
     \<lparr>cb_type = Text, cb_content = c, cb_thumbnail = None, cb_transcription = None,
      cb_filename = None, cb_filesize = None\<rparr>"

definition image_block :: "PendingImage \<Rightarrow> ContentBlock" where
  "image_block img =
     \<lparr>cb_type = Image, cb_content = pi_dataUrl img, cb_thumbnail = Some (pi_thumbnail img),
      cb_transcription = None, cb_filename = None, cb_filesize = None\<rparr>"

definition audio_block :: "PendingAudio \<Rightarrow> ContentBlock" where
  "audio_block audio =
     \<lparr>cb_type = Audio, cb_content = [], cb_thumbnail = None,
      cb_transcription = Some (or_else (pa_transcription audio) []),
      cb_filename = None, cb_filesize = None\<rparr>"

definition pdf_block :: "PendingPDF \<Rightarrow> ContentBlock" where
  "pdf_block pdf =
     \<lparr>cb_type = Pdf, cb_content = pp_filename pdf, cb_thumbnail = None, cb_transcription = None,
      cb_filename = Some (pp_filename pdf), cb_filesize = Some (pp_size pdf)\<rparr>"

text \<open>One turn of the history sent along: the blocks keep type, content, thumbnail and transcription.\<close>

definition history_turn :: "Message \<Rightarrow> ChatTurn" where
  "history_turn msg =
     \<lparr>turn_role = msg_role msg,
      turn_content = concat (map cb_content (msg_contentBlocks msg)),
      turn_content_blocks =
        map (\<lambda>block. \<lparr>cb_type = cb_type block, cb_content = cb_content block,
                        cb_thumbnail = cb_thumbnail block,
                        cb_transcription = cb_transcription block,
                        cb_filename = None, cb_filesize = None\<rparr>)
            (msg_contentBlocks msg)\<rparr>"

text \<open>
  The loop over \<open>pdfDocuments\<close>: a document already processed contributes its chunks;
  any other is processed now, and when that throws it is removed from the staging
  collection and an error message is appended to the conversation. \<open>net\<close> tells what
  the network does for a document, \<open>clock\<close> the reading of \<open>Date.now()\<close> for the id of
  its error message.
\<close>

definition errorMsg :: "nat \<Rightarrow> PendingPDF \<Rightarrow> thrown \<Rightarrow> Message" where
  "errorMsg now pdf err =
     \<lparr>msg_id = toString now, msg_role = Assistant,
      msg_contentBlocks =
        [text_block (''Error processing PDF document '' @ [CHR 0x22] @ pp_filename pdf
           @ [CHR 0x22] @ '': '' @ error_message err)],
      msg_references = None, msg_isStreaming = None\<rparr>"

fun collect_pdfs :: "(string \<Rightarrow> PdfEvent option) \<Rightarrow> (PendingPDF \<Rightarrow> pdf_transport)
    \<Rightarrow> (PendingPDF \<Rightarrow> nat) \<Rightarrow> PendingPDF list \<Rightarrow> DocumentChunk list \<Rightarrow> App
    \<Rightarrow> DocumentChunk list \<times> App" where
  "collect_pdfs parse net clock [] acc s = (acc, s)"
| "collect_pdfs parse net clock (pdf # rest) acc s =
     (if pp_processed pdf = Some True \<and> pp_chunks pdf \<noteq> None \<and> pp_chunks pdf \<noteq> Some [] then
        collect_pdfs parse net clock rest (acc @ or_else (pp_chunks pdf) []) s
      else
        (case processPDF parse pdf (net pdf) s of
           (Inr chunks, s') \<Rightarrow>
             if chunks \<noteq> None \<and> chunks \<noteq> Some [] then
               collect_pdfs parse net clock rest (acc @ or_else chunks []) s'
             else collect_pdfs parse net clock rest acc s'
         | (Inl err, s') \<Rightarrow>
             collect_pdfs parse net clock rest acc
               (s'\<lparr>pendingPDFs := filter (\<lambda>p. pp_id p \<noteq> pp_id pdf) (pendingPDFs s'),
                   messages := messages s' @ [errorMsg (clock pdf) pdf err]\<rparr>)))"

text \<open>
  The two messages \<open>handleSend\<close> appends: the user's, built from the input and the
  staging collections, and the placeholder of the assistant. \<open>now\<close> is the reading of
  \<open>Date.now()\<close> for the id.
\<close>

definition userMessage :: "nat \<Rightarrow> App \<Rightarrow> Message" where
  "userMessage now s =
     \<lparr>msg_id = toString now, msg_role = User,
      msg_contentBlocks =
        (if trim (inputValue s) \<noteq> [] then [text_block (inputValue s)] else [])
        @ map image_block (pendingImages s)
        @ map audio_block (pendingAudios s)
        @ map pdf_block (pendingPDFs s),
      msg_references = None, msg_isStreaming = None\<rparr>"

definition assistantMessage :: "nat \<Rightarrow> Message" where
  "assistantMessage now =
     \<lparr>msg_id = toString (now + 1), msg_role = Assistant,
      msg_contentBlocks = [text_block []],
      msg_references = Some [], msg_isStreaming = Some True\<rparr>"

text \<open>What the rest of \<open>handleSend\<close> needs once the request is built.\<close>

record SendContext =
  assistantMessageId :: string
  request :: ChatRequest

text \<open>
  \<open>handleSend\<close> up to the call of \<open>chatAPI.streamChat\<close>: the guard, the user message, the
  clearing of input, images and audios, the placeholder of the assistant, the
  documents, and the request. \<open>now1\<close> and \<open>now2\<close> are the readings of \<open>Date.now()\<close> for
  the two message ids. Without a context no request is issued: the guard returned.
  Values read from the closure (\<open>messages\<close>, \<open>pendingImages\<close>, \<open>pendingPDFs\<close>,
  \<open>pendingAudios\<close>) are those of the state the handler was called in.
\<close>

definition handleSend_begin :: "(string \<Rightarrow> PdfEvent option) \<Rightarrow> (PendingPDF \<Rightarrow> pdf_transport)
    \<Rightarrow> (PendingPDF \<Rightarrow> nat) \<Rightarrow> nat \<Rightarrow> nat \<Rightarrow> App \<Rightarrow> App \<times> SendContext option" where
  "handleSend_begin parse net clock now1 now2 s =
     (if send_blocked s then (s, None)
      else
        (case collect_pdfs parse net clock (pendingPDFs s) []
                (s\<lparr>messages := messages s @ [userMessage now1 s, assistantMessage now2],
                   inputValue := [], pendingImages := [], pendingAudios := [],
                   isStreaming := True\<rparr>) of
           (allProcessedPdfChunks, s') \<Rightarrow>
             (s',
              Some \<lparr>assistantMessageId = msg_id (assistantMessage now2),
                    request =
                      \<lparr>req_content = inputValue s,
                       req_content_blocks =
                         map image_block (pendingImages s) @ map audio_block (pendingAudios s),
                       req_pdf_chunks = allProcessedPdfChunks,
                       req_history = map history_turn (messages s),
                       req_model = model s,
                       req_knowledge_base = knowledgeBase s\<rparr>\<rparr>)))"

text \<open>\<open>setMessages(prev => prev.map(msg => msg.id === assistantMessageId ? f(msg) : msg))\<close>\<close>

definition update_message :: "string \<Rightarrow> (Message \<Rightarrow> Message) \<Rightarrow> App \<Rightarrow> App" where
  "update_message mid f s =
     s\<lparr>messages := map (\<lambda>msg. if msg_id msg = mid then f msg else msg) (messages s)\<rparr>"

text \<open>
  The body of the \<open>for await\<close> loop for one frame, on the accumulator \<open>fullContent\<close> and
  the state; the flag tells that the loop executed \<open>break\<close>.
\<close>

definition on_chunk :: "string \<Rightarrow> StreamingResponse \<Rightarrow> string \<times> App \<Rightarrow> (string \<times> App) \<times> bool" where
  "on_chunk aid chunk st =
     (case st of (fullContent, s) \<Rightarrow>
        if sr_type chunk = ''content_delta'' \<and> sr_content chunk \<noteq> None \<and> sr_content chunk \<noteq> Some [] then
          ((fullContent @ or_else (sr_content chunk) [],
            update_message aid
              (\<lambda>msg. msg\<lparr>msg_contentBlocks :=
                        [text_block (fullContent @ or_else (sr_content chunk) [])]\<rparr>) s),
           False)
        else if sr_type chunk = ''message_complete'' then
          ((fullContent,
            (update_message aid
               (\<lambda>msg. msg\<lparr>msg_isStreaming := Some False,
                          msg_references := Some (or_else (sr_references chunk) [])\<rparr>) s)
              \<lparr>isStreaming := False, pendingPDFs := [], pendingAudios := []\<rparr>),
           True)
        else if sr_type chunk = ''error'' then
          ((fullContent,
            (update_message aid
               (\<lambda>msg. msg\<lparr>msg_contentBlocks :=
                          [text_block (''Sorry, an error occurred: ''
                             @ or_else (sr_error chunk) ''undefined'')],
                        msg_isStreaming := Some False\<rparr>) s)
              \<lparr>isStreaming := False, pendingPDFs := [], pendingAudios := []\<rparr>),
           True)
        else ((fullContent, s), False))"

text \<open>The \<open>for await\<close> loop over the frames that arrive.\<close>

fun consume :: "string \<Rightarrow> StreamingResponse list \<Rightarrow> string \<times> App \<Rightarrow> string \<times> App" where
  "consume aid [] st = st"
| "consume aid (chunk # chunks) st =
     (case on_chunk aid chunk st of
        (st', True) \<Rightarrow> st'
      | (st', False) \<Rightarrow> consume aid chunks st')"

text \<open>The \<open>catch\<close> of \<open>handleSend\<close>.\<close>

definition handleSend_catch :: "App \<Rightarrow> App" where
  "handleSend_catch s =
     s\<lparr>toast := Some \<lparr>toast_type = T_error, toast_title = ''Connection Failed'',
           toast_description =
             Some ''Unable to connect to backend service, please check if service is running''\<rparr>,
       isStreaming := False, pendingPDFs := [], pendingAudios := []\<rparr>"

text \<open>\<open>handleSend\<close> after the frames given have arrived, \<open>fullContent\<close> starting empty.\<close>

definition handleSend_frames :: "(string \<Rightarrow> PdfEvent option) \<Rightarrow> (PendingPDF \<Rightarrow> pdf_transport)
    \<Rightarrow> (PendingPDF \<Rightarrow> nat) \<Rightarrow> nat \<Rightarrow> nat \<Rightarrow> StreamingResponse list \<Rightarrow> App \<Rightarrow> App" where
  "handleSend_frames parse net clock now1 now2 frames s =
     (case handleSend_begin parse net clock now1 now2 s of
        (s1, None) \<Rightarrow> s1
      | (s1, Some ctx) \<Rightarrow> snd (consume (assistantMessageId ctx) frames ([], s1)))"

text \<open>\<open>handleSend\<close> run to its end against a transport.\<close>

definition handleSend :: "(string \<Rightarrow> PdfEvent option) \<Rightarrow> (PendingPDF \<Rightarrow> pdf_transport)
    \<Rightarrow> (PendingPDF \<Rightarrow> nat) \<Rightarrow> nat \<Rightarrow> nat \<Rightarrow> (string \<Rightarrow> StreamingResponse option) \<Rightarrow> string
    \<Rightarrow> transport \<Rightarrow> App \<Rightarrow> App" where
  "handleSend parse net clock now1 now2 parse_frame now tr s =
     (case streamChat parse_frame now tr of
        (out, None) \<Rightarrow> handleSend_frames parse net clock now1 now2 (yielded out) s
      | (out, Some err) \<Rightarrow>
          (if send_blocked s then s
           else handleSend_catch (handleSend_frames parse net clock now1 now2 (yielded out) s)))"

definition handleStop :: "App \<Rightarrow> App" where
  "handleStop s =
     s\<lparr>isStreaming := False,
       messages := map (\<lambda>msg. msg\<lparr>msg_isStreaming := Some False\<rparr>) (messages s)\<rparr>"

subsection \<open>Traces of the staging pipeline\<close>

text \<open>
  The handlers that touch the staging collections, as events; a run applies them in
  order, each one to completion.
\<close>

datatype event =
    UploadImage File string nat
  | UploadPDF File pdf_transport nat
  | UploadAudio File audio_outcome nat
  | RemoveImage string
  | RemovePDF string
  | RemoveAudio string
  | Send "PendingPDF \<Rightarrow> pdf_transport" "PendingPDF \<Rightarrow> nat" nat nat
  | Frame string string StreamingResponse
  | Stop

fun step_event :: "(string \<Rightarrow> PdfEvent option) \<Rightarrow> event \<Rightarrow> App \<Rightarrow> App" where
  "step_event parse (UploadImage file imageData now) s = handleUploadImage file imageData now s"
| "step_event parse (UploadPDF file tr now) s = handleUploadPDFNew parse file tr now s"
| "step_event parse (UploadAudio file outcome now) s = handleUploadAudio file outcome now s"
| "step_event parse (RemoveImage i) s = onRemoveImage i s"
| "step_event parse (RemovePDF i) s = onRemovePDF i s"
| "step_event parse (RemoveAudio i) s = onRemoveAudio i s"
| "step_event parse (Send net clock now1 now2) s = fst (handleSend_begin parse net clock now1 now2 s)"
| "step_event parse (Frame aid fullContent chunk) s = snd (fst (on_chunk aid chunk (fullContent, s)))"
| "step_event parse Stop s = handleStop s"

fun run :: "(string \<Rightarrow> PdfEvent option) \<Rightarrow> event list \<Rightarrow> App \<Rightarrow> App" where
  "run parse [] s = s"
| "run parse (e # es) s = run parse es (step_event parse e s)"

text \<open>The clock readings a trace turns into ids of staged attachments.\<close>

fun id_clock :: "event \<Rightarrow> nat list" where
  "id_clock (UploadImage file imageData now) = [now]"
| "id_clock (UploadPDF file tr now) = [now]"
| "id_clock (UploadAudio file outcome now) = [now]"
| "id_clock e = []"

definition staged_ids :: "App \<Rightarrow> string list" where
  "staged_ids s =
     map pi_id (pendingImages s) @ map pp_id (pendingPDFs s) @ map pa_id (pendingAudios s)"


section \<open>Notions used in the statements\<close>

text \<open>The text received in a run of \<open>content_delta\<close> frames.\<close>

definition deltas_text :: "StreamingResponse list \<Rightarrow> string" where
  "deltas_text ds = concat (map (\<lambda>d. or_else (sr_content d) []) ds)"

text \<open>
  The send precondition as the specification words it: not streaming, and a non-empty
  input text or at least one staged attachment of any of the three kinds.
\<close>

definition spec_send_allowed :: "App \<Rightarrow> bool" where
  "spec_send_allowed s \<longleftrightarrow>
     \<not> isStreaming s \<and>
     (inputValue s \<noteq> [] \<or> pendingImages s \<noteq> [] \<or> pendingPDFs s \<noteq> [] \<or> pendingAudios s \<noteq> [])"

text \<open>
  What \<open>processPDF\<close> for the document \<open>pid\<close> leaves alone: everything but the toast,
  the progress record and the contents of the staged documents with that id; ids and
  order of the staged documents stay.
\<close>

definition pdf_frame :: "string \<Rightarrow> App \<Rightarrow> App \<Rightarrow> bool" where
  "pdf_frame pid s s' \<longleftrightarrow>
     inputValue s' = inputValue s \<and> messages s' = messages s \<and> isStreaming s' = isStreaming s
     \<and> pendingImages s' = pendingImages s \<and> pendingAudios s' = pendingAudios s
     \<and> model s' = model s \<and> knowledgeBase s' = knowledgeBase s
     \<and> map pp_id (pendingPDFs s') = map pp_id (pendingPDFs s)
     \<and> filter (\<lambda>p. pp_id p \<noteq> pid) (pendingPDFs s') = filter (\<lambda>p. pp_id p \<noteq> pid) (pendingPDFs s)"

text \<open>The invariant of the staging pipeline: ids pairwise distinct and drawn from \<open>X\<close>.\<close>

definition ids_inv :: "string set \<Rightarrow> App \<Rightarrow> bool" where
  "ids_inv X s \<longleftrightarrow> distinct (staged_ids s) \<and> set (staged_ids s) \<subseteq> X"

section \<open>Sample data for the worked examples\<close>

text \<open>
  \<open>JSON.parse\<close> is a function of the host language and a parameter of the model. The
  worked examples instantiate it with a parser that knows the payloads below and
  rejects every other text. It agrees with \<open>JSON.parse\<close> on these payloads and on
  \<open>payload_malformed\<close>, an object cut short, which are the only texts the examples
  hand to it.
\<close>

definition payload_delta :: string where
  \<open>payload_delta = ''{"type":"content_delta","content":"Hi","timestamp":"t1"}''\<close>

definition frame_delta :: StreamingResponse where
  "frame_delta =
     \<lparr>sr_type = ''content_delta'', sr_content = Some ''Hi'', sr_full_content = None,
      sr_error = None, sr_timestamp = ''t1'', sr_references = None\<rparr>"

definition payload_complete :: string where
  \<open>payload_complete = ''{"type":"message_complete","timestamp":"t2","references":[]}''\<close>

definition frame_complete :: StreamingResponse where
  "frame_complete =
     \<lparr>sr_type = ''message_complete'', sr_content = None, sr_full_content = None,
      sr_error = None, sr_timestamp = ''t2'', sr_references = Some []\<rparr>"

definition payload_error :: string where
  \<open>payload_error = ''{"type":"error","error":"overloaded","timestamp":"t0"}''\<close>

definition frame_error :: StreamingResponse where
  "frame_error =
     \<lparr>sr_type = ''error'', sr_content = None, sr_full_content = None,
      sr_error = Some ''overloaded'', sr_timestamp = ''t0'', sr_references = None\<rparr>"


definition sample_parse :: "string \<Rightarrow> StreamingResponse option" where
  "sample_parse payload =
     (if payload = payload_delta then Some frame_delta
      else if payload = payload_complete then Some frame_complete
      else if payload = payload_error then Some frame_error
      else None)"

text \<open>The same for the events of the document-processing stream.\<close>

definition payload_progress :: string where
  \<open>payload_progress = ''{"type":"progress","progress":40,"step":"ocr","message":"OCR"}''\<close>

definition event_progress :: PdfEvent where
  "event_progress =
     \<lparr>pe_type = ''progress'', pe_progress = Some 40, pe_step = Some ''ocr'',
      pe_message = Some ''OCR'', pe_chunks = None, pe_error = None\<rparr>"

definition payload_result :: string where
  \<open>payload_result = ''{"type":"result","chunks":[{"id":"c1","content":"text","metadata":{}}]}''\<close>

definition sample_chunks :: "DocumentChunk list" where
  "sample_chunks = [\<lparr>chunk_id = ''c1'', chunk_content = ''text'', chunk_metadata = ''{}''\<rparr>]"

definition event_result :: PdfEvent where
  "event_result =
     \<lparr>pe_type = ''result'', pe_progress = None, pe_step = None, pe_message = None,
      pe_chunks = Some sample_chunks, pe_error = None\<rparr>"

definition payload_pdf_error :: string where
  \<open>payload_pdf_error = ''{"type":"error","error":"OCR failed"}''\<close>

definition event_error :: PdfEvent where
  "event_error =
     \<lparr>pe_type = ''error'', pe_progress = None, pe_step = None, pe_message = None,
      pe_chunks = None, pe_error = Some ''OCR failed''\<rparr>"

definition sample_parse_pdf :: "string \<Rightarrow> PdfEvent option" where
  "sample_parse_pdf payload =
     (if payload = payload_progress then Some event_progress
      else if payload = payload_result then Some event_result
      else if payload = payload_pdf_error then Some event_error
      else None)"

text \<open>Files and states of the examples.\<close>

definition report_pdf :: File where
  "report_pdf = \<lparr>file_name = ''report.pdf'', file_size = 2048\<rparr>"

definition photo_png :: File where
  "photo_png = \<lparr>file_name = ''photo.png'', file_size = 1024\<rparr>"

definition sample_reference :: Reference where
  "sample_reference =
     \<lparr>ref_id = 1, ref_text = ''Quarterly revenue grew'', ref_source = ''report.pdf'', ref_page = 3,
      ref_chunk_id = 0, ref_source_info = ''report.pdf - Page 3''\<rparr>"

text \<open>A network without a response body, and a clock that stands still, for the examples.\<close>

definition no_network :: "PendingPDF \<Rightarrow> pdf_transport" where
  "no_network pdf = PdfNoBody"

definition still_clock :: "PendingPDF \<Rightarrow> nat" where
  "still_clock pdf = 5"

text \<open>
  A conversation for the examples: a send of \<open>hello\<close>, one delta received, then the stop
  action, then one more delta reaching the loop, which still holds its accumulator.
\<close>

definition begun :: App where
  "begun = fst (handleSend_begin sample_parse_pdf no_network still_clock 1 2
                  (initial_App\<lparr>inputValue := ''hello''\<rparr>))"

definition before_stop :: "string \<times> App" where
  "before_stop = consume ''3'' [frame_delta] ([], begun)"

definition stopped :: App where
  "stopped = handleStop (snd before_stop)"

definition after_late :: "string \<times> App" where
  "after_late = consume ''3'' [frame_delta] (fst before_stop, stopped)"

text \<open>A state with an image and a processed document staged.\<close>

definition staged_state :: App where
  "staged_state =
     initial_App\<lparr>pendingImages :=
                   [\<lparr>pi_id = ''5'', pi_file = photo_png, pi_dataUrl = ''data:image/png;base64,AA'',
                     pi_thumbnail = ''data:image/png;base64,AA''\<rparr>],
                 pendingPDFs :=
                   [\<lparr>pp_id = ''6'', pp_file = report_pdf, pp_filename = ''report.pdf'',
                     pp_size = 2048, pp_processed = Some True, pp_chunks = Some sample_chunks\<rparr>]\<rparr>"

definition scan_pdf :: File where
  "scan_pdf = \<lparr>file_name = ''scan.pdf'', file_size = 4096\<rparr>"

definition memo_m4a :: File where
  "memo_m4a = \<lparr>file_name = ''memo.m4a'', file_size = 512\<rparr>"


section \<open>Line splitting\<close>

lemma split_nl_nonempty: "split_nl s \<noteq> []"
  by (induction s) (auto split: list.splits)

lemma split_nl_no_newline: "newline \<notin> set s \<Longrightarrow> split_nl s = [s]"
  by (induction s) (auto split: list.splits)

lemma last_split_nl_no_newline: "newline \<notin> set (last (split_nl s))"
proof (induction s)
  case Nil
  show ?case by simp
next
  case (Cons c s)
  obtain t T where T: "split_nl s = t # T"
    using split_nl_nonempty [of s] by (cases "split_nl s") auto
  show ?case
  proof (cases "c = newline")
    case True
    with Cons T show ?thesis by simp
  next
    case False
    with Cons T show ?thesis by (cases T) auto
  qed
qed

lemma split_nl_append:
  "split_nl (x @ y) = butlast (split_nl x) @ split_nl (last (split_nl x) @ y)"
proof (induction x)
  case Nil
  show ?case by simp
next
  case (Cons c x)
  obtain t T where T: "split_nl x = t # T"
    using split_nl_nonempty [of x] by (cases "split_nl x") auto
  show ?case
  proof (cases "c = newline")
    case True
    with Cons T show ?thesis by simp
  next
    case False
    with Cons T show ?thesis by (cases T) auto
  qed
qed

lemma butlast_split_nl_append:
  "butlast (split_nl (x @ y)) =
     butlast (split_nl x) @ butlast (split_nl (last (split_nl x) @ y))"
  by (subst split_nl_append) (simp add: butlast_append split_nl_nonempty)

lemma last_split_nl_append:
  "last (split_nl (x @ y)) = last (split_nl (last (split_nl x) @ y))"
  by (subst split_nl_append) (simp add: split_nl_nonempty)






section \<open>The decoding loop depends on the text only\<close>

lemma for_lines_append:
  "for_lines parse (xs @ ys) =
     (case for_lines parse xs of
        (out, True) \<Rightarrow> (out, True)
      | (out, False) \<Rightarrow> (case for_lines parse ys of (out', r) \<Rightarrow> (out @ out', r)))"
  by (induction xs) (auto split: prod.splits option.splits bool.splits)

lemma read_loop_whole:
  "newline \<notin> set buffer \<Longrightarrow>
     read_loop parse buffer vs e = decode_whole parse (buffer @ concat vs) e"
proof (induction vs arbitrary: buffer)
  case Nil
  then show ?case by (simp add: decode_whole_def split_nl_no_newline)
next
  case (Cons v vs)
  have IH: "read_loop parse (last (split_nl (buffer @ v))) vs e =
      decode_whole parse (last (split_nl (buffer @ v)) @ concat vs) e"
    by (rule Cons.IH) (rule last_split_nl_no_newline)
  have split: "butlast (split_nl (buffer @ v @ concat vs)) = butlast (split_nl (buffer @ v)) @
      butlast (split_nl (last (split_nl (buffer @ v)) @ concat vs))"
    using butlast_split_nl_append [of "buffer @ v" "concat vs"] by simp
  show ?case
    by (simp add: IH Let_def)
       (simp add: decode_whole_def split for_lines_append split: prod.splits bool.splits)
qed


text \<open>
  C1. Chunking invariance of the frame decoder: however the text of the response body
  is cut into chunks, also inside a line, \<open>streamChat\<close> emits the same frames in the
  same order (and the same diagnostics, and ends the same way) as when the whole body
  arrives as one chunk.
\<close>

theorem streamChat_chunking_invariant:
  "streamChat parse now (Body vs e) = streamChat parse now (Body [concat vs] e)"
proof -
  have "read_loop parse [] vs e = decode_whole parse (concat vs) e"
    using read_loop_whole [of "[]" parse vs e] by simp
  moreover have "read_loop parse [] [concat vs] e = decode_whole parse (concat vs) e"
    using read_loop_whole [of "[]" parse "[concat vs]" e] by simp
  ultimately show ?thesis
    by (simp only: streamChat_def streamChat_try.simps)
qed

section \<open>Failures of the transport\<close>

lemma for_lines_no_terminal:
  "for_lines parse ls = (out, False) \<Longrightarrow> \<forall>d\<in>set (yielded out). \<not> terminal d"
proof (induction ls arbitrary: out)
  case Nil
  then show ?case by simp
next
  case (Cons l ls)
  obtain out' r where rest: "for_lines parse ls = (out', r)"
    by (cases "for_lines parse ls")
  from Cons.prems rest have r: "r = False"
    by (auto split: if_splits option.splits)
  with Cons.IH rest have IH: "\<forall>d\<in>set (yielded out'). \<not> terminal d" by simp
  from Cons.prems rest IH show ?case
    by (auto split: if_splits option.splits)
qed

lemma streamChat_never_throws: "snd (streamChat parse now tr) = None"
  by (simp add: streamChat_def split: prod.splits option.splits)

lemma streamChat_read_failure:
  "streamChat parse now (Body vs (ReadFails err)) =
     (case for_lines parse (butlast (split_nl (concat vs))) of
        (out, True) \<Rightarrow> (out, None)
      | (out, False) \<Rightarrow> (out @ [Yield (error_frame err now)], None))"
proof -
  have "read_loop parse [] vs (ReadFails err) = decode_whole parse (concat vs) (ReadFails err)"
    using read_loop_whole [of "[]" parse vs "ReadFails err"] by simp
  then show ?thesis
    by (simp add: streamChat_def decode_whole_def split: prod.splits bool.splits)
qed

text \<open>
  C10. \<open>streamChat\<close> never lets an exception out. A refused connection, a status
  outside 2xx (also when its body cannot be read), a missing body and a read that fails
  in mid-stream each end the generator with one frame of type \<open>error\<close> that carries the
  message of the failure and the time stamp; in mid-stream it follows the frames decoded
  so far, none of which is terminal (had one been terminal, the generator would have
  returned before the failing read).
\<close>

theorem streamChat_total_on_failures:
  "snd (streamChat parse now tr) = None
   \<and> streamChat parse now (FetchRejected err) = ([Yield (error_frame err now)], None)
   \<and> streamChat parse now (NotOk status errorText) =
       ([Yield (error_frame
           (Error (''HTTP error! status: '' @ toString status @ '', body: '' @ errorText)) now)],
        None)
   \<and> streamChat parse now (NotOkTextFails status err) = ([Yield (error_frame err now)], None)
   \<and> streamChat parse now NoBody =
       ([Yield (error_frame (Error ''Unable to read response stream'') now)], None)
   \<and> streamChat parse now (Body vs (ReadFails err)) =
       (case for_lines parse (butlast (split_nl (concat vs))) of
          (out, True) \<Rightarrow> (out, None)
        | (out, False) \<Rightarrow> (out @ [Yield (error_frame err now)], None))
   \<and> (case for_lines parse (butlast (split_nl (concat vs))) of
          (out, True) \<Rightarrow> True
        | (out, False) \<Rightarrow> filter terminal (yielded out) = [])
   \<and> sr_type (error_frame err now) = ''error''
   \<and> sr_error (error_frame err now) = Some (error_message err)
   \<and> sr_timestamp (error_frame err now) = now"
proof -
  have "filter terminal (yielded out) = []"
    if "for_lines parse (butlast (split_nl (concat vs))) = (out, False)" for out
    using for_lines_no_terminal [OF that] by (simp add: filter_empty_conv)
  then have "case for_lines parse (butlast (split_nl (concat vs))) of
          (out, True) \<Rightarrow> True
        | (out, False) \<Rightarrow> filter terminal (yielded out) = []"
    by (simp split: prod.splits bool.splits)
  then show ?thesis
    using streamChat_never_throws [of parse now tr] streamChat_read_failure [of parse now vs err]
    by (simp add: streamChat_def error_frame_def)
qed


section \<open>The residual buffer at the end of the stream\<close>

text \<open>
  C2. A body whose last frame is not followed by a line feed: \<open>streamChat\<close> yields the
  frames of the complete lines and ends without ever parsing the residual, so the last
  frame is lost; with the line feed the frame is yielded. \<open>processPDF\<close> on a body with
  the same shape does parse the residual and returns the chunks of the result in it.
\<close>

theorem streamChat_loses_unterminated_frame:
  "streamChat sample_parse now
     (Body [''data: '' @ payload_delta @ [newline], ''data: '' @ payload_complete] Done)
     = ([Yield frame_delta], None)
   \<and> streamChat sample_parse now
     (Body [''data: '' @ payload_delta @ [newline], ''data: '' @ payload_complete @ [newline]] Done)
     = ([Yield frame_delta, Yield frame_complete], None)
   \<and> fst (processPDF sample_parse_pdf pdf (PdfBody [''data: '' @ payload_result] Done) s)
     = Inr (Some sample_chunks)"
proof -
  have a: "streamChat sample_parse now
     (Body [''data: '' @ payload_delta @ [newline], ''data: '' @ payload_complete] Done)
     = ([Yield frame_delta], None)"
    by (simp add: streamChat_def sample_parse_def payload_delta_def payload_complete_def
        payload_error_def frame_delta_def newline_def startsWith_def slice_def terminal_def)
  have b: "streamChat sample_parse now
     (Body [''data: '' @ payload_delta @ [newline], ''data: '' @ payload_complete @ [newline]] Done)
     = ([Yield frame_delta, Yield frame_complete], None)"
    by (simp add: streamChat_def sample_parse_def payload_delta_def payload_complete_def
        payload_error_def frame_delta_def frame_complete_def newline_def startsWith_def
        slice_def terminal_def)
  have c: "fst (processPDF sample_parse_pdf pdf (PdfBody [''data: '' @ payload_result] Done) s)
     = Inr (Some sample_chunks)"
    by (simp add: processPDF_def pdf_final_buffer_def sample_parse_pdf_def payload_result_def
        payload_progress_def payload_pdf_error_def event_result_def newline_def startsWith_def
        slice_def trim_def is_space_def)
  show ?thesis
    using a b c by blast
qed


section \<open>A malformed line\<close>










section \<open>Properties of marker splitting\<close>

lemma match_marker_SomeD:
  assumes "match_marker s = Some (ds, rest)"
  shows "s = CHR ''['' # ds @ CHR '']'' # rest" and "ds \<noteq> []" and "\<forall>c\<in>set ds. is_digit c"
proof -
  obtain c cs where s: "s = c # cs"
    using assms by (cases s) auto
  let ?r = "dropWhile is_digit cs"
  from assms s have c: "c = CHR ''[''" and ds: "ds = takeWhile is_digit cs"
    and r: "?r \<noteq> []" "hd ?r = CHR '']''" "rest = tl ?r" and ne: "ds \<noteq> []"
    by (auto simp: Let_def split: if_splits)
  have "cs = ds @ ?r" by (simp add: ds)
  also have "?r = CHR '']'' # rest" using r by (cases ?r) auto
  finally show "s = CHR ''['' # ds @ CHR '']'' # rest" using s c by simp
  show "ds \<noteq> []" by (rule ne)
  show "\<forall>c\<in>set ds. is_digit c" unfolding ds by (auto dest: set_takeWhileD)
qed

lemma match_marker_marker:
  assumes "ds \<noteq> []" and "\<forall>c\<in>set ds. is_digit c"
  shows "match_marker (CHR ''['' # ds @ CHR '']'' # rest) = Some (ds, rest)"
proof -
  have nd: "\<not> is_digit CHR '']''" by (simp add: is_digit_def)
  have "takeWhile is_digit (ds @ CHR '']'' # rest) = ds"
    using assms(2) nd by (simp add: takeWhile_append2)
  moreover have "dropWhile is_digit (ds @ CHR '']'' # rest) = CHR '']'' # rest"
    using assms(2) nd by (simp add: dropWhile_append2)
  ultimately show ?thesis using assms(1) by simp
qed

lemma match_marker_append_None:
  "match_marker (x @ y) = None \<Longrightarrow> match_marker x = None"
proof (rule ccontr)
  assume n: "match_marker (x @ y) = None" and "match_marker x \<noteq> None"
  then obtain ds rest where m: "match_marker x = Some (ds, rest)" by auto
  have "match_marker (CHR ''['' # ds @ CHR '']'' # (rest @ y)) = Some (ds, rest @ y)"
    using match_marker_SomeD(2,3) [OF m] by (rule match_marker_marker)
  moreover have "x @ y = CHR ''['' # ds @ CHR '']'' # (rest @ y)"
    using match_marker_SomeD(1) [OF m] by simp
  ultimately show False using n by simp
qed

lemma concat_split_markers: "concat (split_markers acc s) = acc @ s"
proof (induction acc s rule: split_markers.induct)
  case (1 acc)
  show ?case by simp
next
  case (2 acc c cs)
  show ?case
  proof (cases "match_marker (c # cs)")
    case None
    with 2 show ?thesis by (simp del: match_marker.simps)
  next
    case (Some x)
    obtain ds rest where x: "x = (ds, rest)" by (cases x)
    have "c # cs = CHR ''['' # ds @ CHR '']'' # rest"
      using match_marker_SomeD(1) Some x by blast
    with "2.IH"(2) [OF Some x [symmetric]] Some x show ?thesis
      by (simp del: match_marker.simps)
  qed
qed

lemma find_marker_None_iff:
  "find_marker s = None \<longleftrightarrow> (\<forall>i<length s. match_marker (drop i s) = None)"
proof (induction s)
  case Nil
  show ?case by simp
next
  case (Cons c cs)
  have "(\<forall>i<length (c # cs). match_marker (drop i (c # cs)) = None) \<longleftrightarrow>
        match_marker (c # cs) = None \<and> (\<forall>i<length cs. match_marker (drop i cs) = None)"
    (is "?L \<longleftrightarrow> ?R")
  proof
    assume L: ?L
    have "match_marker (drop 0 (c # cs)) = None" using L by blast
    moreover have "match_marker (drop i cs) = None" if "i < length cs" for i
      using L [rule_format, of "Suc i"] that by simp
    ultimately show ?R by simp
  next
    assume R: ?R
    show ?L
    proof (intro allI impI)
      fix i assume "i < length (c # cs)"
      then show "match_marker (drop i (c # cs)) = None"
        using R by (cases i) (simp_all del: match_marker.simps)
    qed
  qed
  with Cons show ?case
    by (simp del: match_marker.simps split: option.splits)
qed

lemma clean_Nil: "clean [] s"
  by (simp add: clean_def)

lemma clean_literal: "clean acc s \<Longrightarrow> find_marker acc = None"
  unfolding clean_def find_marker_None_iff
proof (intro allI impI)
  fix i assume a: "\<forall>i<length acc. match_marker (drop i (acc @ s)) = None" and i: "i < length acc"
  then have "match_marker (drop i acc @ s) = None" by simp
  then show "match_marker (drop i acc) = None" by (rule match_marker_append_None)
qed

lemma clean_step:
  assumes "clean acc (c # cs)" and "match_marker (c # cs) = None"
  shows "clean (acc @ [c]) cs"
  unfolding clean_def
proof (intro allI impI)
  fix i assume "i < length (acc @ [c])"
  then consider "i < length acc" | "i = length acc" by fastforce
  then show "match_marker (drop i ((acc @ [c]) @ cs)) = None"
  proof cases
    case 1
    with assms(1) show ?thesis by (simp add: clean_def)
  next
    case 2
    with assms(2) show ?thesis by (simp del: match_marker.simps)
  qed
qed

lemma split_markers_parts:
  "clean acc s \<Longrightarrow> \<forall>p\<in>set (split_markers acc s). find_marker p = None \<or> is_marker p"
proof (induction acc s rule: split_markers.induct)
  case (1 acc)
  then show ?case by (simp add: clean_literal)
next
  case (2 acc c cs)
  show ?case
  proof (cases "match_marker (c # cs)")
    case None
    with "2.IH"(1) "2.prems" show ?thesis by (simp del: match_marker.simps add: clean_step)
  next
    case (Some x)
    obtain ds rest where x: "x = (ds, rest)" by (cases x)
    have m: "is_marker (CHR ''['' # ds @ '']'')"
      using match_marker_SomeD(2,3) [of "c # cs" ds rest] Some x
      unfolding is_marker_def by blast
    have "\<forall>p\<in>set (split_markers [] rest). find_marker p = None \<or> is_marker p"
      using "2.IH"(2) [OF Some x [symmetric]] by (simp add: clean_Nil)
    with m clean_literal [OF "2.prems"] Some x show ?thesis
      by (simp del: match_marker.simps)
  qed
qed

lemma find_marker_marker:
  assumes "ds \<noteq> []" and "\<forall>c\<in>set ds. is_digit c"
  shows "find_marker (CHR ''['' # ds @ '']'') = Some ds"
  using match_marker_marker [OF assms, of "[]"] by (simp del: match_marker.simps)

lemma render_part_literal:
  "find_marker p = None \<Longrightarrow>
     render_part references p = (if p \<noteq> [] then ReactMarkdown p else Span [])"
  by (simp add: render_part_def)

lemma index_refs_spec:
  "(case references of
      Some refs \<Rightarrow> if length refs > 0 then index_refs refs (int k - 1) else None
    | None \<Rightarrow> None) = spec_resolve references k"
  by (cases references) (auto simp: index_refs_def spec_resolve_def nat_diff_distrib')

lemma render_part_marker:
  assumes "ds \<noteq> []" and "\<forall>c\<in>set ds. is_digit c"
  shows "render_part references (CHR ''['' # ds @ '']'') =
     (case spec_resolve references (parseInt ds) of
        Some ref \<Rightarrow> ReferenceSuperscript ds (onReferenceClick [ref]) None
      | None \<Rightarrow> ReferenceSuperscript ds LogInvalidReference (Some ''opacity-50 cursor-not-allowed''))"
  unfolding render_part_def find_marker_marker [OF assms] index_refs_spec by simp

lemma render_part_ok:
  assumes "find_marker p = None \<or> is_marker p"
  shows "element_ok references (render_part references p) \<and>
         element_source (render_part references p) = p"
  using assms
proof
  assume "find_marker p = None"
  then show ?thesis by (simp add: render_part_literal element_ok_def)
next
  assume "is_marker p"
  then obtain ds where ds: "ds \<noteq> []" "\<forall>c\<in>set ds. is_digit c" and p: "p = CHR ''['' # ds @ '']''"
    unfolding is_marker_def by blast
  show ?thesis
    unfolding p render_part_marker [OF ds] using ds
    by (simp add: element_ok_def split: option.splits)
qed

lemma processContent_source:
  "concat (map element_source (processContent references content)) = content"
proof -
  have ok: "\<forall>p\<in>set (split_markers [] content). find_marker p = None \<or> is_marker p"
    by (rule split_markers_parts) (rule clean_Nil)
  have "map element_source (processContent references content) = split_markers [] content"
    unfolding processContent_def map_map
    by (rule map_idI) (use ok render_part_ok in auto)
  then show ?thesis by (simp add: concat_split_markers)
qed

lemma processContent_elements:
  "\<forall>el\<in>set (processContent references content). element_ok references el"
proof -
  have ok: "\<forall>p\<in>set (split_markers [] content). find_marker p = None \<or> is_marker p"
    by (rule split_markers_parts) (rule clean_Nil)
  then show ?thesis
    unfolding processContent_def using render_part_ok by auto
qed

lemma match_marker_before_bracket:
  assumes "match_marker (c # l) = None"
  shows "match_marker (c # l @ CHR ''['' # z) = None"
proof (cases "c = CHR ''[''")
  case False
  then show ?thesis by simp
next
  case True
  have nb: "\<not> is_digit CHR ''[''" by (simp add: is_digit_def)
  show ?thesis
  proof (cases "\<forall>x\<in>set l. is_digit x")
    case all: True
    then have "dropWhile is_digit (l @ CHR ''['' # z) = CHR ''['' # z"
      using nb by (simp add: dropWhile_append2)
    then show ?thesis using True by (simp add: Let_def)
  next
    case False
    then obtain x where x: "x \<in> set l" "\<not> is_digit x" by blast
    have tw: "takeWhile is_digit (l @ CHR ''['' # z) = takeWhile is_digit l"
      using x by (rule takeWhile_append1)
    have dw: "dropWhile is_digit (l @ CHR ''['' # z) = dropWhile is_digit l @ CHR ''['' # z"
      using x by (rule dropWhile_append1)
    have ne: "dropWhile is_digit l \<noteq> []"
      using x by (auto simp: dropWhile_eq_Nil_conv)
    from assms True ne show ?thesis
      by (auto simp: Let_def tw dw split: if_splits)
  qed
qed

lemma find_marker_Cons_None:
  assumes "find_marker (c # l) = None"
  shows "match_marker (c # l) = None" and "find_marker l = None"
  using assms by (auto simp del: match_marker.simps split: option.splits prod.splits)

lemma split_markers_literal:
  "find_marker l = None \<Longrightarrow> split_markers acc l = [acc @ l]"
proof (induction l arbitrary: acc)
  case Nil
  show ?case by simp
next
  case (Cons c l)
  from Cons.prems have m: "match_marker (c # l) = None" and f: "find_marker l = None"
    by (rule find_marker_Cons_None)+
  from Cons.IH [OF f, of "acc @ [c]"] m show ?case
    by (simp del: match_marker.simps)
qed

lemma split_markers_literal_marker:
  assumes "find_marker l = None" and "ds \<noteq> []" and "\<forall>c\<in>set ds. is_digit c"
  shows "split_markers acc (l @ CHR ''['' # ds @ CHR '']'' # rest) =
     (acc @ l) # (CHR ''['' # ds @ '']'') # split_markers [] rest"
  using assms(1)
proof (induction l arbitrary: acc)
  case Nil
  from match_marker_marker [OF assms(2,3), of rest] show ?case
    by (simp del: match_marker.simps)
next
  case (Cons c l)
  from Cons.prems have m: "match_marker (c # l) = None" and f: "find_marker l = None"
    by (rule find_marker_Cons_None)+
  have "match_marker (c # l @ CHR ''['' # ds @ CHR '']'' # rest) = None"
    using m by (rule match_marker_before_bracket)
  with Cons.IH [OF f, of "acc @ [c]"] show ?case
    by (simp del: match_marker.simps)
qed

lemma render_part_literal_element:
  "find_marker p = None \<Longrightarrow> render_part references p = literal_element p"
  by (simp add: render_part_literal literal_element_def)

lemma render_part_citation_element:
  "ds \<noteq> [] \<Longrightarrow> \<forall>c\<in>set ds. is_digit c \<Longrightarrow>
     render_part references (CHR ''['' # ds @ '']'') = citation_element references ds"
  by (simp add: render_part_marker citation_element_def)

lemma is_literal_literal_element: "is_literal (literal_element l)"
  by (simp add: literal_element_def)

lemma is_literal_citation_element: "\<not> is_literal (citation_element references ds)"
  by (simp add: citation_element_def split: option.splits)

lemma split_markers_alternates:
  "clean acc s \<Longrightarrow> alternates (map (render_part references) (split_markers acc s))"
proof (induction acc s rule: split_markers.induct)
  case (1 acc)
  then show ?case
    by (simp add: render_part_literal_element [OF clean_literal] is_literal_literal_element)
next
  case (2 acc c cs)
  show ?case
  proof (cases "match_marker (c # cs)")
    case None
    with "2.IH"(1) "2.prems" show ?thesis by (simp del: match_marker.simps add: clean_step)
  next
    case (Some x)
    obtain ds rest where x: "x = (ds, rest)" by (cases x)
    have ds: "ds \<noteq> []" "\<forall>c\<in>set ds. is_digit c"
      using match_marker_SomeD(2,3) [of "c # cs" ds rest] Some x by blast+
    have "alternates (map (render_part references) (split_markers [] rest))"
      using "2.IH"(2) [OF Some x [symmetric]] by (simp add: clean_Nil)
    with Some x show ?thesis
      by (simp del: match_marker.simps
          add: render_part_literal_element [OF clean_literal [OF "2.prems"]]
            render_part_citation_element [OF ds] is_literal_literal_element
            is_literal_citation_element)
  qed
qed

lemma processContent_alternates: "alternates (processContent references content)"
  unfolding processContent_def by (rule split_markers_alternates) (rule clean_Nil)

lemma processContent_literal:
  "find_marker l = None \<Longrightarrow> processContent references l = [literal_element l]"
  by (simp add: processContent_def split_markers_literal render_part_literal_element)

lemma processContent_marker:
  assumes "find_marker l = None" and "ds \<noteq> []" and "\<forall>c\<in>set ds. is_digit c"
  shows "processContent references (l @ CHR ''['' # ds @ CHR '']'' # rest) =
     literal_element l # citation_element references ds # processContent references rest"
  unfolding processContent_def split_markers_literal_marker [OF assms]
  by (simp add: render_part_literal_element [OF assms(1)]
      render_part_citation_element [OF assms(2,3)])


text \<open>
  C7. For every message text and reference list: a text without a marker is rendered
  as one literal element; a text that goes on, after a piece without a marker, with a
  marker \<open>[k]\<close> is rendered as the literal for that piece, the citation for \<open>k\<close>, and the
  rendering of the rest. The citation is clickable, opening \<open>references[k-1]\<close>, exactly
  when \<open>k\<close> is within \<open>[1, length(references)]\<close>, and otherwise (out of range, or no
  reference list) is the dimmed citation whose click only logs. So every marker of the
  text becomes a citation: literals and citations alternate, no literal holds a marker,
  and the elements stand, in order, for consecutive pieces of the text that together
  are the text. \<open>See [1] and [9]\<close> with one reference gives one resolved and one
  unresolved citation between the literal pieces.
\<close>

theorem processContent_resolves:
  "concat (map element_source (processContent references content)) = content
   \<and> (\<forall>el\<in>set (processContent references content). element_ok references el)
   \<and> alternates (processContent references content)
   \<and> (find_marker content = None \<longrightarrow>
        processContent references content = [literal_element content])
   \<and> (find_marker l = None \<and> ds \<noteq> [] \<and> (\<forall>c\<in>set ds. is_digit c) \<longrightarrow>
        processContent references (l @ CHR ''['' # ds @ CHR '']'' # rest) =
          literal_element l # citation_element references ds # processContent references rest)
   \<and> processContent (Some [r]) ''See [1] and [9]'' =
       [ReactMarkdown ''See '',
        ReferenceSuperscript ''1'' (onReferenceClick [r]) None,
        ReactMarkdown '' and '',
        ReferenceSuperscript ''9'' LogInvalidReference (Some ''opacity-50 cursor-not-allowed''),
        Span []]
   \<and> processContent None ''See [1] and [9]'' =
       [ReactMarkdown ''See '',
        ReferenceSuperscript ''1'' LogInvalidReference (Some ''opacity-50 cursor-not-allowed''),
        ReactMarkdown '' and '',
        ReferenceSuperscript ''9'' LogInvalidReference (Some ''opacity-50 cursor-not-allowed''),
        Span []]"
proof -
  have "processContent (Some [r]) ''See [1] and [9]'' =
       [ReactMarkdown ''See '',
        ReferenceSuperscript ''1'' (onReferenceClick [r]) None,
        ReactMarkdown '' and '',
        ReferenceSuperscript ''9'' LogInvalidReference (Some ''opacity-50 cursor-not-allowed''),
        Span []]"
    by (simp add: processContent_def render_part_def is_digit_def parseInt_def digit_val_def
        index_refs_def)
  moreover have "processContent None ''See [1] and [9]'' =
       [ReactMarkdown ''See '',
        ReferenceSuperscript ''1'' LogInvalidReference (Some ''opacity-50 cursor-not-allowed''),
        ReactMarkdown '' and '',
        ReferenceSuperscript ''9'' LogInvalidReference (Some ''opacity-50 cursor-not-allowed''),
        Span []]"
    by (simp add: processContent_def render_part_def is_digit_def)
  ultimately show ?thesis
    using processContent_source [of references content]
      processContent_elements [of references content]
      processContent_alternates [of references content]
      processContent_literal [of content references]
      processContent_marker [of l ds references rest]
    by blast
qed

theorem processContent_resolves_witness:
  "processContent (Some [sample_reference]) ''[2] cites [01]'' =
     [Span [],
      ReferenceSuperscript ''2'' LogInvalidReference (Some ''opacity-50 cursor-not-allowed''),
      ReactMarkdown '' cites '',
      ReferenceSuperscript ''01'' (onReferenceClick [sample_reference]) None,
      Span []]
   \<and> element_ok (Some [sample_reference])
       (ReferenceSuperscript ''2'' LogInvalidReference (Some ''opacity-50 cursor-not-allowed''))
   \<and> element_ok (Some [sample_reference])
       (ReferenceSuperscript ''01'' (onReferenceClick [sample_reference]) None)
   \<and> element_ok (Some [sample_reference]) (ReactMarkdown '' cites '')
   \<and> spec_resolve (Some [sample_reference]) 2 = None
   \<and> spec_resolve (Some [sample_reference]) 1 = Some sample_reference"
proof -
  have d2: "''2'' \<noteq> [] \<and> (\<forall>c\<in>set ''2''. is_digit c)"
    and d01: "''01'' \<noteq> [] \<and> (\<forall>c\<in>set ''01''. is_digit c)"
    by (simp_all add: is_digit_def)
  have l0: "find_marker [] = None" and l1: "find_marker '' cites '' = None"
    by simp_all
  note t0 = processContent_resolves [of "Some [sample_reference]" "[]" "[]" "''2''" "'' cites [01]''"]
  note t1 = processContent_resolves [of "Some [sample_reference]" "[]" "'' cites ''" "''01''" "[]"]
  note t2 = processContent_resolves [of "Some [sample_reference]" "''[2] cites [01]''"]
  from t0 l0 d2 have s0: "processContent (Some [sample_reference]) ([] @ CHR ''['' # ''2'' @ CHR '']'' # '' cites [01]'') =
      literal_element [] # citation_element (Some [sample_reference]) ''2''
        # processContent (Some [sample_reference]) '' cites [01]''"
    by blast
  from t1 l1 d01 have s1: "processContent (Some [sample_reference]) ('' cites '' @ CHR ''['' # ''01'' @ CHR '']'' # []) =
      literal_element '' cites '' # citation_element (Some [sample_reference]) ''01''
        # processContent (Some [sample_reference]) []"
    by blast
  from t1 l0 have s2: "processContent (Some [sample_reference]) [] = [literal_element []]"
    by blast
  have r2: "spec_resolve (Some [sample_reference]) (parseInt ''2'') = None"
    and r1: "spec_resolve (Some [sample_reference]) (parseInt ''01'') = Some sample_reference"
    by (simp_all add: spec_resolve_def parseInt_def digit_val_def)
  have ex: "processContent (Some [sample_reference]) ''[2] cites [01]'' =
     [Span [],
      ReferenceSuperscript ''2'' LogInvalidReference (Some ''opacity-50 cursor-not-allowed''),
      ReactMarkdown '' cites '',
      ReferenceSuperscript ''01'' (onReferenceClick [sample_reference]) None,
      Span []]"
    using s0 s1 s2 by (simp add: literal_element_def citation_element_def r1 r2)
  from t2 have "\<forall>el\<in>set (processContent (Some [sample_reference]) ''[2] cites [01]'').
      element_ok (Some [sample_reference]) el"
    by blast
  then show ?thesis
    unfolding ex by (simp add: spec_resolve_def)
qed


section \<open>What the document pipeline leaves alone\<close>

lemma pdf_frame_refl: "pdf_frame pid s s"
  by (simp add: pdf_frame_def)

lemma pdf_frame_trans: "pdf_frame pid s s' \<Longrightarrow> pdf_frame pid s' s'' \<Longrightarrow> pdf_frame pid s s''"
  by (simp add: pdf_frame_def)

lemma map_id_mark: "map pp_id (map (\<lambda>pdf. if pp_id pdf = pid then pdf\<lparr>pp_processed := a, pp_chunks := b\<rparr> else pdf) xs)
    = map pp_id xs"
  by (induction xs) auto

lemma filter_mark: "filter (\<lambda>p. pp_id p \<noteq> pid)
      (map (\<lambda>pdf. if pp_id pdf = pid then pdf\<lparr>pp_processed := a, pp_chunks := b\<rparr> else pdf) xs)
    = filter (\<lambda>p. pp_id p \<noteq> pid) xs"
  by (induction xs) auto

lemma pdf_frame_mark: "pdf_frame pid s (mark_processed pid chunks s)"
  by (simp add: pdf_frame_def mark_processed_def map_id_mark filter_mark)

lemma pdf_frame_progress: "pdf_frame pid s (s\<lparr>pdfProcessing := p\<rparr>)"
  by (simp add: pdf_frame_def)

lemma pdf_frame_toast: "pdf_frame pid s (s\<lparr>toast := t\<rparr>)"
  by (simp add: pdf_frame_def)

lemma pdf_line_try_frame:
  "pdf_line_try parse pid data s = Completed s' \<Longrightarrow> pdf_frame pid s s'"
  "pdf_line_try parse pid data s = Returned chunks s' \<Longrightarrow> pdf_frame pid s s'"
  by (auto simp: pdf_line_try_def pdf_frame_refl pdf_frame_progress pdf_frame_mark
      split: option.splits if_splits)

lemma pdf_for_lines_frame:
  "pdf_for_lines parse pid ls s = (r, s') \<Longrightarrow> pdf_frame pid s s'"
proof (induction ls arbitrary: s)
  case Nil
  then show ?case by (simp add: pdf_frame_refl)
next
  case (Cons l ls)
  show ?case
  proof (cases "startsWith ''data: '' l \<and> trim (slice 6 l) \<noteq> ''[DONE]'' \<and> trim (slice 6 l) \<noteq> []")
    case False
    with Cons.prems have "pdf_for_lines parse pid ls s = (r, s')"
      by (auto simp: Let_def split: if_splits)
    then show ?thesis by (rule Cons.IH)
  next
    case True
    show ?thesis
    proof (cases "pdf_line_try parse pid (trim (slice 6 l)) s")
      case (Completed s1)
      with True Cons.prems have "pdf_for_lines parse pid ls s1 = (r, s')"
        by (simp add: Let_def)
      then have "pdf_frame pid s1 s'" by (rule Cons.IH)
      with pdf_line_try_frame(1) [OF Completed] show ?thesis by (rule pdf_frame_trans)
    next
      case (Returned chunks s1)
      with True Cons.prems have "s' = s1" by (simp add: Let_def)
      with pdf_line_try_frame(2) [OF Returned] show ?thesis by simp
    next
      case (Thrown e)
      with True Cons.prems have "pdf_for_lines parse pid ls s = (r, s')"
        by (simp add: Let_def)
      then show ?thesis by (rule Cons.IH)
    qed
  qed
qed

lemma pdf_read_loop_frame:
  "pdf_read_loop parse pid buffer vs e s = (r, s') \<Longrightarrow> pdf_frame pid s s'"
proof (induction vs arbitrary: buffer s)
  case Nil
  then show ?case by (cases e) (auto simp: pdf_frame_refl)
next
  case (Cons v vs)
  obtain r1 s1 where l: "pdf_for_lines parse pid (butlast (split_nl (buffer @ v))) s = (r1, s1)"
    by (cases "pdf_for_lines parse pid (butlast (split_nl (buffer @ v))) s")
  have f1: "pdf_frame pid s s1" using l by (rule pdf_for_lines_frame)
  show ?case
  proof (cases r1)
    case None
    with Cons.prems l have "pdf_read_loop parse pid (last (split_nl (buffer @ v))) vs e s1 = (r, s')"
      by (simp add: Let_def)
    then have "pdf_frame pid s1 s'" by (rule Cons.IH)
    with f1 show ?thesis by (rule pdf_frame_trans)
  next
    case (Some chunks)
    with Cons.prems l have "s' = s1" by (simp add: Let_def)
    with f1 show ?thesis by simp
  qed
qed

lemma pdf_final_buffer_frame:
  "pdf_final_buffer parse pid buffer s = (r, s') \<Longrightarrow> pdf_frame pid s s'"
  by (auto simp: pdf_final_buffer_def Let_def pdf_frame_refl pdf_frame_mark
      split: if_splits option.splits)

lemma processPDF_try_frame:
  "processPDF_try parse pid tr s = (r, s') \<Longrightarrow> pdf_frame pid s s'"
proof (cases tr)
  case (PdfBody vs e)
  assume a: "processPDF_try parse pid tr s = (r, s')"
  obtain x s1 where l: "pdf_read_loop parse pid [] vs e s = (x, s1)"
    by (cases "pdf_read_loop parse pid [] vs e s")
  have f1: "pdf_frame pid s s1" using l by (rule pdf_read_loop_frame)
  show ?thesis
  proof (cases x)
    case (Loop_done buffer)
    obtain c s2 where fb: "pdf_final_buffer parse pid buffer s1 = (c, s2)"
      by (cases "pdf_final_buffer parse pid buffer s1")
    with a PdfBody l Loop_done have "s' = s2" by simp
    with f1 pdf_final_buffer_frame [OF fb] show ?thesis by (auto intro: pdf_frame_trans)
  next
    case (Loop_returned chunks)
    with a PdfBody l f1 show ?thesis by simp
  next
    case (Loop_threw err)
    with a PdfBody l f1 show ?thesis by simp
  qed
qed (auto simp: pdf_frame_refl)

lemma processPDF_frame:
  assumes "processPDF parse pdf tr s = (r, s')"
  shows "pdf_frame (pp_id pdf) s s'" and "pdfProcessing s' = no_processing"
proof -
  let ?s0 = "s\<lparr>pdfProcessing := \<lparr>isProcessing = True, progress = 0, step = ''preparing'',
                                   message = ''Preparing to process PDF...''\<rparr>\<rparr>"
  obtain x s1 where t: "processPDF_try parse (pp_id pdf) tr ?s0 = (x, s1)"
    by (cases "processPDF_try parse (pp_id pdf) tr ?s0")
  have f: "pdf_frame (pp_id pdf) s s1"
    using pdf_frame_progress processPDF_try_frame [OF t] by (rule pdf_frame_trans)
  from assms t have s': "s' = s1\<lparr>pdfProcessing := no_processing\<rparr> \<or>
      (\<exists>t. s' = s1\<lparr>toast := t, pdfProcessing := no_processing\<rparr>)"
    by (cases x) (auto simp: processPDF_def)
  with f show "pdf_frame (pp_id pdf) s s'" by (auto simp: pdf_frame_def)
  from s' show "pdfProcessing s' = no_processing" by auto
qed

text \<open>The loop over the staged documents at send time.\<close>

lemma collect_pdfs_frame:
  assumes "collect_pdfs parse net clock pdfs acc s = (chunks, s')"
  shows "inputValue s' = inputValue s \<and> isStreaming s' = isStreaming s
     \<and> pendingImages s' = pendingImages s \<and> pendingAudios s' = pendingAudios s
     \<and> (\<exists>errs. messages s' = messages s @ errs)
     \<and> set (map pp_id (pendingPDFs s')) \<subseteq> set (map pp_id (pendingPDFs s))
     \<and> (distinct (map pp_id (pendingPDFs s)) \<longrightarrow> distinct (map pp_id (pendingPDFs s')))"
  using assms
proof (induction pdfs arbitrary: acc s)
  case Nil
  then show ?case by simp
next
  case (Cons pdf pdfs)
  show ?case
  proof (cases "pp_processed pdf = Some True \<and> pp_chunks pdf \<noteq> None \<and> pp_chunks pdf \<noteq> Some []")
    case True
    with Cons.prems have "collect_pdfs parse net clock pdfs (acc @ or_else (pp_chunks pdf) []) s = (chunks, s')"
      by simp
    then show ?thesis by (rule Cons.IH)
  next
    case False
    obtain r s1 where p: "processPDF parse pdf (net pdf) s = (r, s1)"
      by (cases "processPDF parse pdf (net pdf) s")
    have f: "pdf_frame (pp_id pdf) s s1" using p by (rule processPDF_frame)
    show ?thesis
    proof (cases r)
      case (Inr c)
      from Cons.prems have "(if c \<noteq> None \<and> c \<noteq> Some []
               then collect_pdfs parse net clock pdfs (acc @ or_else c []) s1
               else collect_pdfs parse net clock pdfs acc s1) = (chunks, s')"
        unfolding collect_pdfs.simps if_not_P [OF False] p Inr by simp
      then obtain acc' where "collect_pdfs parse net clock pdfs acc' s1 = (chunks, s')"
        by (auto split: if_splits)
      note IH = Cons.IH [OF this]
      have ids1: "map pp_id (pendingPDFs s1) = map pp_id (pendingPDFs s)"
        and rest: "inputValue s1 = inputValue s" "isStreaming s1 = isStreaming s"
          "pendingImages s1 = pendingImages s" "pendingAudios s1 = pendingAudios s"
          "messages s1 = messages s"
        using f by (simp_all add: pdf_frame_def)
      show ?thesis using IH unfolding ids1 rest .
    next
      case (Inl err)
      define s2 where "s2 = s1\<lparr>pendingPDFs := filter (\<lambda>p. pp_id p \<noteq> pp_id pdf) (pendingPDFs s1),
                   messages := messages s1 @ [errorMsg (clock pdf) pdf err]\<rparr>"
      from Cons.prems have "collect_pdfs parse net clock pdfs acc s2 = (chunks, s')"
        unfolding collect_pdfs.simps if_not_P [OF False] p Inl s2_def by simp
      from Cons.IH [OF this] have IH: "inputValue s' = inputValue s2 \<and> isStreaming s' = isStreaming s2
         \<and> pendingImages s' = pendingImages s2 \<and> pendingAudios s' = pendingAudios s2
         \<and> (\<exists>errs. messages s' = messages s2 @ errs)
         \<and> set (map pp_id (pendingPDFs s')) \<subseteq> set (map pp_id (pendingPDFs s2))
         \<and> (distinct (map pp_id (pendingPDFs s2)) \<longrightarrow> distinct (map pp_id (pendingPDFs s')))" .
      have "map pp_id (pendingPDFs s2) = filter (\<lambda>i. i \<noteq> pp_id pdf) (map pp_id (pendingPDFs s1))"
        by (simp add: s2_def filter_map comp_def)
      moreover have "map pp_id (pendingPDFs s1) = map pp_id (pendingPDFs s)"
        using f by (simp add: pdf_frame_def)
      ultimately have ids2: "map pp_id (pendingPDFs s2) = filter (\<lambda>i. i \<noteq> pp_id pdf) (map pp_id (pendingPDFs s))"
        by (simp only:)
      have sub2: "set (map pp_id (pendingPDFs s2)) \<subseteq> set (map pp_id (pendingPDFs s))"
        unfolding ids2 by auto
      have dist2: "distinct (map pp_id (pendingPDFs s)) \<longrightarrow> distinct (map pp_id (pendingPDFs s2))"
        unfolding ids2 by simp
      have same2: "inputValue s2 = inputValue s" "isStreaming s2 = isStreaming s"
        "pendingImages s2 = pendingImages s" "pendingAudios s2 = pendingAudios s"
        using f by (simp_all add: s2_def pdf_frame_def)
      have "messages s2 = messages s @ [errorMsg (clock pdf) pdf err]"
        using f by (simp add: s2_def pdf_frame_def)
      with IH have msgs: "\<exists>errs. messages s' = messages s @ errs" by auto
      from IH sub2 have sub: "set (map pp_id (pendingPDFs s')) \<subseteq> set (map pp_id (pendingPDFs s))"
        by (meson subset_trans)
      from IH dist2 have dist: "distinct (map pp_id (pendingPDFs s)) \<longrightarrow> distinct (map pp_id (pendingPDFs s'))"
        by blast
      from IH same2 have "inputValue s' = inputValue s" "isStreaming s' = isStreaming s"
        "pendingImages s' = pendingImages s" "pendingAudios s' = pendingAudios s"
        by simp_all
      with msgs sub dist show ?thesis by blast
    qed
  qed
qed


section \<open>Sending\<close>

lemma handleSend_begin_blocked:
  "send_blocked s \<Longrightarrow> handleSend_begin parse net clock now1 now2 s = (s, None)"
  by (simp add: handleSend_begin_def)

lemma handleSend_blocked:
  "send_blocked s \<Longrightarrow> handleSend parse net clock now1 now2 parse_frame now tr s = s"
  by (simp add: handleSend_def handleSend_frames_def handleSend_begin_blocked
      split: prod.splits option.splits)

lemma handleSend_begin_proceeds:
  assumes "\<not> send_blocked s"
  shows "\<exists>s' ctx errs. handleSend_begin parse net clock now1 now2 s = (s', Some ctx)
     \<and> assistantMessageId ctx = msg_id (assistantMessage now2)
     \<and> req_content (request ctx) = inputValue s
     \<and> messages s' = messages s @ [userMessage now1 s, assistantMessage now2] @ errs
     \<and> inputValue s' = [] \<and> isStreaming s'
     \<and> pendingImages s' = [] \<and> pendingAudios s' = []"
proof -
  let ?s1 = "s\<lparr>messages := messages s @ [userMessage now1 s, assistantMessage now2],
                inputValue := [], pendingImages := [], pendingAudios := [],
                isStreaming := True\<rparr>"
  obtain chunks s' where c: "collect_pdfs parse net clock (pendingPDFs s) [] ?s1 = (chunks, s')"
    by (cases "collect_pdfs parse net clock (pendingPDFs s) [] ?s1")
  from collect_pdfs_frame [OF c] obtain errs where
    "messages s' = messages s @ [userMessage now1 s, assistantMessage now2] @ errs"
    "inputValue s' = []" "isStreaming s'" "pendingImages s' = []" "pendingAudios s' = []"
    by auto
  with assms c show ?thesis
    by (simp add: handleSend_begin_def)
qed

text \<open>
  C4, as the code has it. A send while streaming, or with blank input text (empty
  after trimming) and nothing staged, is a no-op: state unchanged, so history and staging
  collections are as before, and no request is built. A send while not streaming, with
  input text that is not blank or with at least one staged image or audio, proceeds: the
  user message and the placeholder of the assistant are appended to the history, the
  input is cleared, the streaming flag is set and a request carrying the input text is
  built. (Blank text with only documents staged is left out of this statement.)
\<close>

theorem send_precondition:
  "(isStreaming s \<or> (trim (inputValue s) = [] \<and> pendingImages s = [] \<and> pendingPDFs s = []
                      \<and> pendingAudios s = [])
      \<longrightarrow> handleSend_begin parse net clock now1 now2 s = (s, None)
          \<and> handleSend parse net clock now1 now2 parse_frame now tr s = s)
   \<and> (\<not> isStreaming s \<and> (trim (inputValue s) \<noteq> [] \<or> pendingImages s \<noteq> [] \<or> pendingAudios s \<noteq> [])
      \<longrightarrow> (\<exists>s' ctx errs. handleSend_begin parse net clock now1 now2 s = (s', Some ctx)
             \<and> req_content (request ctx) = inputValue s
             \<and> messages s' = messages s @ [userMessage now1 s, assistantMessage now2] @ errs
             \<and> inputValue s' = [] \<and> isStreaming s'))"
proof (intro conjI impI)
  assume a: "isStreaming s \<or> (trim (inputValue s) = [] \<and> pendingImages s = []
      \<and> pendingPDFs s = [] \<and> pendingAudios s = [])"
  then have b: "send_blocked s" by (auto simp: send_blocked_def)
  show "handleSend_begin parse net clock now1 now2 s = (s, None)"
    using b by (rule handleSend_begin_blocked)
  show "handleSend parse net clock now1 now2 parse_frame now tr s = s"
    using b by (rule handleSend_blocked)
next
  assume "\<not> isStreaming s \<and> (trim (inputValue s) \<noteq> [] \<or> pendingImages s \<noteq> [] \<or> pendingAudios s \<noteq> [])"
  then have "\<not> send_blocked s" by (auto simp: send_blocked_def)
  from handleSend_begin_proceeds [OF this, of parse net clock now1 now2]
  show "\<exists>s' ctx errs. handleSend_begin parse net clock now1 now2 s = (s', Some ctx)
             \<and> req_content (request ctx) = inputValue s
             \<and> messages s' = messages s @ [userMessage now1 s, assistantMessage now2] @ errs
             \<and> inputValue s' = [] \<and> isStreaming s'"
    by blast
qed

theorem send_precondition_witness:
  "handleSend_begin sample_parse_pdf no_network still_clock 1 2
     (initial_App\<lparr>inputValue := ''hello'', isStreaming := True\<rparr>)
     = (initial_App\<lparr>inputValue := ''hello'', isStreaming := True\<rparr>, None)
   \<and> snd (handleSend_begin sample_parse_pdf no_network still_clock 1 2
            (initial_App\<lparr>inputValue := ''hello''\<rparr>)) \<noteq> None
   \<and> length (messages (fst (handleSend_begin sample_parse_pdf no_network still_clock 1 2
            (initial_App\<lparr>inputValue := ''hello''\<rparr>)))) \<ge> 2
   \<and> inputValue (fst (handleSend_begin sample_parse_pdf no_network still_clock 1 2
            (initial_App\<lparr>inputValue := ''hello''\<rparr>))) = []"
proof -
  have h1: "isStreaming (initial_App\<lparr>inputValue := ''hello'', isStreaming := True\<rparr>)
      \<or> (trim (inputValue (initial_App\<lparr>inputValue := ''hello'', isStreaming := True\<rparr>)) = []
          \<and> pendingImages (initial_App\<lparr>inputValue := ''hello'', isStreaming := True\<rparr>) = []
          \<and> pendingPDFs (initial_App\<lparr>inputValue := ''hello'', isStreaming := True\<rparr>) = []
          \<and> pendingAudios (initial_App\<lparr>inputValue := ''hello'', isStreaming := True\<rparr>) = [])"
    by simp
  have h2: "\<not> isStreaming (initial_App\<lparr>inputValue := ''hello''\<rparr>)
      \<and> (trim (inputValue (initial_App\<lparr>inputValue := ''hello''\<rparr>)) \<noteq> []
          \<or> pendingImages (initial_App\<lparr>inputValue := ''hello''\<rparr>) \<noteq> []
          \<or> pendingAudios (initial_App\<lparr>inputValue := ''hello''\<rparr>) \<noteq> [])"
    by (simp add: initial_App_def trim_def is_space_def)
  note t1 = send_precondition [of "initial_App\<lparr>inputValue := ''hello'', isStreaming := True\<rparr>"
      sample_parse_pdf no_network still_clock 1 2]
  note t2 = send_precondition [of "initial_App\<lparr>inputValue := ''hello''\<rparr>"
      sample_parse_pdf no_network still_clock 1 2]
  from t1 h1 have a: "handleSend_begin sample_parse_pdf no_network still_clock 1 2
     (initial_App\<lparr>inputValue := ''hello'', isStreaming := True\<rparr>)
     = (initial_App\<lparr>inputValue := ''hello'', isStreaming := True\<rparr>, None)"
    by blast
  from t2 h2 obtain s' ctx errs where
    "handleSend_begin sample_parse_pdf no_network still_clock 1 2 (initial_App\<lparr>inputValue := ''hello''\<rparr>)
       = (s', Some ctx)"
    "messages s' = messages (initial_App\<lparr>inputValue := ''hello''\<rparr>)
       @ [userMessage 1 (initial_App\<lparr>inputValue := ''hello''\<rparr>), assistantMessage 2] @ errs"
    "inputValue s' = []"
    by blast
  with a show ?thesis by simp
qed

text \<open>
  C4, as stated, fails on two inputs. Input text of two spaces and nothing staged: the
  text is not empty, yet the send is a no-op. Empty text and one processed document
  staged: \<open>InputBar\<close> calls \<open>onSend\<close> (its guard counts documents), yet the send is a
  no-op, since the guard of \<open>handleSend\<close> does not count them.
\<close>

theorem send_precondition_counterexample:
  "spec_send_allowed (initial_App\<lparr>inputValue := ''  ''\<rparr>)
   \<and> handleSend_begin sample_parse_pdf no_network still_clock 1 2
        (initial_App\<lparr>inputValue := ''  ''\<rparr>)
       = (initial_App\<lparr>inputValue := ''  ''\<rparr>, None)
   \<and> spec_send_allowed
        (initial_App\<lparr>pendingPDFs :=
           [\<lparr>pp_id = ''7'', pp_file = report_pdf, pp_filename = ''report.pdf'', pp_size = 2048,
             pp_processed = Some True, pp_chunks = Some sample_chunks\<rparr>]\<rparr>)
   \<and> InputBar_sends
        (initial_App\<lparr>pendingPDFs :=
           [\<lparr>pp_id = ''7'', pp_file = report_pdf, pp_filename = ''report.pdf'', pp_size = 2048,
             pp_processed = Some True, pp_chunks = Some sample_chunks\<rparr>]\<rparr>)
   \<and> handleSend_begin sample_parse_pdf no_network still_clock 1 2
        (initial_App\<lparr>pendingPDFs :=
           [\<lparr>pp_id = ''7'', pp_file = report_pdf, pp_filename = ''report.pdf'', pp_size = 2048,
             pp_processed = Some True, pp_chunks = Some sample_chunks\<rparr>]\<rparr>)
       = (initial_App\<lparr>pendingPDFs :=
           [\<lparr>pp_id = ''7'', pp_file = report_pdf, pp_filename = ''report.pdf'', pp_size = 2048,
             pp_processed = Some True, pp_chunks = Some sample_chunks\<rparr>]\<rparr>, None)"
  by (simp add: spec_send_allowed_def InputBar_sends_def handleSend_begin_def send_blocked_def
      initial_App_def trim_def is_space_def)


section \<open>Accumulating the streamed text\<close>

lemma update_message_content_twice:
  "update_message aid (\<lambda>msg. msg\<lparr>msg_contentBlocks := b\<rparr>)
     (update_message aid (\<lambda>msg. msg\<lparr>msg_contentBlocks := a\<rparr>) s)
   = update_message aid (\<lambda>msg. msg\<lparr>msg_contentBlocks := b\<rparr>) s"
  by (simp add: update_message_def comp_def)

lemma on_chunk_delta:
  assumes "sr_type d = ''content_delta''"
  shows "on_chunk aid d (fc, s) =
     (if or_else (sr_content d) [] = [] then ((fc, s), False)
      else ((fc @ or_else (sr_content d) [],
             update_message aid
               (\<lambda>msg. msg\<lparr>msg_contentBlocks := [text_block (fc @ or_else (sr_content d) [])]\<rparr>) s),
            False))"
  using assms by (cases "sr_content d") (auto simp: on_chunk_def)

lemma consume_deltas:
  assumes "\<forall>d\<in>set ds. sr_type d = ''content_delta''"
  shows "consume aid ds (fc, s) =
     (fc @ deltas_text ds,
      if deltas_text ds = [] then s
      else update_message aid
             (\<lambda>msg. msg\<lparr>msg_contentBlocks := [text_block (fc @ deltas_text ds)]\<rparr>) s)"
  using assms
proof (induction ds arbitrary: fc s)
  case Nil
  then show ?case by (simp add: deltas_text_def)
next
  case (Cons d ds)
  have d: "sr_type d = ''content_delta''" and ds: "\<forall>d\<in>set ds. sr_type d = ''content_delta''"
    using Cons.prems by simp_all
  have dt: "deltas_text (d # ds) = or_else (sr_content d) [] @ deltas_text ds"
    by (simp add: deltas_text_def)
  show ?case
  proof (cases "or_else (sr_content d) [] = []")
    case True
    then show ?thesis
      using Cons.IH [OF ds, of fc s] by (simp add: on_chunk_delta [OF d] dt)
  next
    case False
    then show ?thesis
      using Cons.IH [OF ds] by (simp add: on_chunk_delta [OF d] dt update_message_content_twice)
  qed
qed

text \<open>
  C6. A send that passes the guard, followed by any run of \<open>content_delta\<close> frames: the
  message right after the user's message in the history is the placeholder of the
  assistant, still streaming, and its blocks are one text block whose content is the
  concatenation of the deltas received.
\<close>

theorem streaming_accumulation:
  assumes "\<not> send_blocked s" and "\<forall>d\<in>set ds. sr_type d = ''content_delta''"
  shows "length (messages s) + 1 < length (messages (handleSend_frames parse net clock now1 now2 ds s))
     \<and> messages (handleSend_frames parse net clock now1 now2 ds s) ! (length (messages s) + 1)
       = \<lparr>msg_id = toString (now2 + 1), msg_role = Assistant,
          msg_contentBlocks = [text_block (deltas_text ds)],
          msg_references = Some [], msg_isStreaming = Some True\<rparr>"
proof -
  from handleSend_begin_proceeds [OF assms(1), of parse net clock now1 now2]
  obtain s' ctx errs where b: "handleSend_begin parse net clock now1 now2 s = (s', Some ctx)"
    and aid: "assistantMessageId ctx = msg_id (assistantMessage now2)"
    and msgs: "messages s' = messages s @ [userMessage now1 s, assistantMessage now2] @ errs"
    by blast
  let ?n = "length (messages s) + 1"
  let ?f = "handleSend_frames parse net clock now1 now2 ds s"
  have at: "messages s' ! ?n = assistantMessage now2" and len: "?n < length (messages s')"
    unfolding msgs by (simp_all add: nth_append)
  have f: "?f = (if deltas_text ds = [] then s'
      else update_message (msg_id (assistantMessage now2))
             (\<lambda>msg. msg\<lparr>msg_contentBlocks := [text_block (deltas_text ds)]\<rparr>) s')"
    using consume_deltas [OF assms(2), of "msg_id (assistantMessage now2)" "[]" s']
    by (simp add: handleSend_frames_def b aid)
  show ?thesis
  proof (cases "deltas_text ds = []")
    case True
    with f at len show ?thesis by (simp add: assistantMessage_def)
  next
    case False
    with f have "messages ?f = map (\<lambda>msg. if msg_id msg = msg_id (assistantMessage now2)
        then msg\<lparr>msg_contentBlocks := [text_block (deltas_text ds)]\<rparr> else msg) (messages s')"
      by (simp add: update_message_def)
    with at len show ?thesis by (simp add: assistantMessage_def)
  qed
qed

theorem streaming_accumulation_witness:
  "messages (handleSend_frames sample_parse_pdf no_network still_clock 1 2 [frame_delta, frame_delta]
               (initial_App\<lparr>inputValue := ''hello''\<rparr>)) ! 1
     = \<lparr>msg_id = ''3'', msg_role = Assistant, msg_contentBlocks = [text_block ''HiHi''],
        msg_references = Some [], msg_isStreaming = Some True\<rparr>"
proof -
  have h1: "\<not> send_blocked (initial_App\<lparr>inputValue := ''hello''\<rparr>)"
    by (simp add: send_blocked_def initial_App_def trim_def is_space_def)
  have h2: "\<forall>d\<in>set [frame_delta, frame_delta]. sr_type d = ''content_delta''"
    by (simp add: frame_delta_def)
  have "toString (2 + 1) = ''3''"
    by code_simp
  moreover have "deltas_text [frame_delta, frame_delta] = ''HiHi''"
    by (simp add: deltas_text_def frame_delta_def)
  moreover have "length (messages (initial_App\<lparr>inputValue := ''hello''\<rparr>)) + 1 = 1"
    by (simp add: initial_App_def)
  ultimately show ?thesis
    using streaming_accumulation [OF h1 h2, of sample_parse_pdf no_network still_clock 1 2]
    by simp
qed


section \<open>Stopping\<close>

lemma on_chunk_flags:
  assumes "\<forall>m\<in>set (messages s). msg_isStreaming m = Some False"
    and "on_chunk aid c (fc, s) = ((fc', s'), b)"
  shows "\<forall>m\<in>set (messages s'). msg_isStreaming m = Some False"
  using assms by (auto simp: on_chunk_def update_message_def split: if_splits)

lemma consume_flags:
  assumes "\<forall>m\<in>set (messages s). msg_isStreaming m = Some False"
  shows "\<forall>m\<in>set (messages (snd (consume aid cs (fc, s)))). msg_isStreaming m = Some False"
  using assms
proof (induction cs arbitrary: fc s)
  case Nil
  then show ?case by simp
next
  case (Cons c cs)
  obtain fc' s' b where o: "on_chunk aid c (fc, s) = ((fc', s'), b)"
    by (metis surj_pair)
  have f: "\<forall>m\<in>set (messages s'). msg_isStreaming m = Some False"
    using Cons.prems o by (rule on_chunk_flags)
  show ?case
  proof (cases b)
    case True
    with o f show ?thesis by simp
  next
    case False
    with o Cons.IH [OF f, of fc'] show ?thesis by simp
  qed
qed

text \<open>
  C5, as the code has it. The stop action leaves the blocks (and ids) of every message
  as they are and sets the streaming flag of every message, and of the application, to
  false; no frame that arrives later sets a flag back. The loop of \<open>handleSend\<close> is not
  told of the stop: a run of \<open>content_delta\<close> frames arriving after it, with some text in
  it, still replaces the text block of the assistant's message by the text accumulated
  before the stop followed by the late text.
\<close>

theorem stop_keeps_text_and_clears_flags:
  "map msg_contentBlocks (messages (handleStop s)) = map msg_contentBlocks (messages s)
   \<and> map msg_id (messages (handleStop s)) = map msg_id (messages s)
   \<and> (\<forall>m\<in>set (messages (handleStop s)). msg_isStreaming m = Some False)
   \<and> \<not> isStreaming (handleStop s)
   \<and> (\<forall>m\<in>set (messages (snd (consume aid late (fullContent, handleStop s)))).
         msg_isStreaming m = Some False)
   \<and> ((\<forall>d\<in>set late. sr_type d = ''content_delta'') \<and> deltas_text late \<noteq> [] \<longrightarrow>
        consume aid late (fullContent, handleStop s) =
          (fullContent @ deltas_text late,
           update_message aid
             (\<lambda>msg. msg\<lparr>msg_contentBlocks := [text_block (fullContent @ deltas_text late)]\<rparr>)
             (handleStop s)))"
proof -
  have flags: "\<forall>m\<in>set (messages (handleStop s)). msg_isStreaming m = Some False"
    by (simp add: handleStop_def)
  have "map msg_contentBlocks (messages (handleStop s)) = map msg_contentBlocks (messages s)"
    and "map msg_id (messages (handleStop s)) = map msg_id (messages s)"
    and "\<not> isStreaming (handleStop s)"
    by (simp_all add: handleStop_def comp_def)
  moreover note flags consume_flags [OF flags, of aid late fullContent]
  moreover have "consume aid late (fullContent, handleStop s) =
          (fullContent @ deltas_text late,
           update_message aid
             (\<lambda>msg. msg\<lparr>msg_contentBlocks := [text_block (fullContent @ deltas_text late)]\<rparr>)
             (handleStop s))"
    if "\<forall>d\<in>set late. sr_type d = ''content_delta''" and "deltas_text late \<noteq> []"
    using consume_deltas [OF that(1), of aid fullContent "handleStop s"] that(2) by simp
  ultimately show ?thesis by blast
qed

lemma toString_3: "toString 3 = ''3''"
  by code_simp

lemma toString_1: "toString (Suc 0) = ''1''"
  by code_simp

lemma begun_eval:
  "begun = initial_App\<lparr>messages := [userMessage 1 (initial_App\<lparr>inputValue := ''hello''\<rparr>),
                                       assistantMessage 2],
                        isStreaming := True\<rparr>"
  by (simp add: begun_def handleSend_begin_def send_blocked_def initial_App_def trim_def
      is_space_def userMessage_def)

lemma before_stop_eval:
  "before_stop =
     (''Hi'', initial_App\<lparr>messages := [userMessage 1 (initial_App\<lparr>inputValue := ''hello''\<rparr>),
                                       (assistantMessage 2)\<lparr>msg_contentBlocks := [text_block ''Hi'']\<rparr>],
                        isStreaming := True\<rparr>)"
  by (simp add: before_stop_def begun_eval on_chunk_def frame_delta_def update_message_def
      userMessage_def assistantMessage_def toString_3 toString_1 initial_App_def trim_def
      is_space_def)

theorem stop_keeps_text_and_clears_flags_witness:
  "msg_contentBlocks (messages stopped ! 1) = [text_block ''Hi'']
   \<and> msg_isStreaming (messages stopped ! 1) = Some False
   \<and> msg_isStreaming (messages (snd after_late) ! 1) = Some False
   \<and> after_late =
       (''HiHi'',
        update_message ''3'' (\<lambda>msg. msg\<lparr>msg_contentBlocks := [text_block ''HiHi'']\<rparr>) stopped)"
proof -
  have h: "(\<forall>d\<in>set [frame_delta]. sr_type d = ''content_delta'') \<and> deltas_text [frame_delta] \<noteq> []"
    by (simp add: frame_delta_def deltas_text_def)
  have dt: "deltas_text [frame_delta] = ''Hi''"
    by (simp add: frame_delta_def deltas_text_def)
  have len: "length (messages (snd after_late)) = 2"
    by (simp add: after_late_def stopped_def before_stop_eval on_chunk_def frame_delta_def
        update_message_def handleStop_def)
  note t = stop_keeps_text_and_clears_flags [of "snd before_stop" "''3''" "[frame_delta]" "fst before_stop"]
  from t h have a: "after_late =
       (''HiHi'',
        update_message ''3'' (\<lambda>msg. msg\<lparr>msg_contentBlocks := [text_block ''HiHi'']\<rparr>) stopped)"
    unfolding after_late_def stopped_def dt by (simp add: before_stop_eval)
  from t have "\<forall>m\<in>set (messages (snd after_late)). msg_isStreaming m = Some False"
    unfolding after_late_def stopped_def by blast
  with len have b: "msg_isStreaming (messages (snd after_late) ! 1) = Some False"
    by simp
  from t have "map msg_contentBlocks (messages stopped) = map msg_contentBlocks (messages (snd before_stop))"
    and "\<forall>m\<in>set (messages stopped). msg_isStreaming m = Some False"
    unfolding stopped_def by blast+
  then have c: "msg_contentBlocks (messages stopped ! 1) = [text_block ''Hi'']"
    and d: "msg_isStreaming (messages stopped ! 1) = Some False"
    by (simp_all add: stopped_def before_stop_eval handleStop_def)
  from a b c d show ?thesis by blast
qed

text \<open>
  C5, as stated, fails: after the stop the text block of the assistant's message holds
  \<open>Hi\<close>; the next delta changes it to \<open>HiHi\<close>.
\<close>

theorem stop_counterexample:
  "msg_id (messages stopped ! 1) = ''3''
   \<and> msg_contentBlocks (messages stopped ! 1) = [text_block ''Hi'']
   \<and> msg_isStreaming (messages stopped ! 1) = Some False
   \<and> msg_contentBlocks (messages (snd after_late) ! 1) = [text_block ''HiHi'']
   \<and> text_block ''Hi'' \<noteq> text_block ''HiHi''"
  by (simp add: after_late_def stopped_def before_stop_eval on_chunk_def frame_delta_def
      update_message_def handleStop_def assistantMessage_def toString_3 text_block_def)


section \<open>A document whose processing fails\<close>

text \<open>
  C8. A document is uploaded while an image and another document are staged.
  When the processing stream delivers an \<open>error\<close> event, the \<open>throw\<close> for it is caught
  by the \<open>catch\<close> of the line loop, \<open>processPDF\<close> returns \<open>undefined\<close> without a toast,
  and \<open>handleUploadPDFNew\<close> removes the document: the staging collections are as
  before the upload and the progress record is cleared, but the toast on display is
  still the \<open>info\<close> toast of the upload, not an error notification. When the request
  itself fails, the error toast naming the file is there.
\<close>

theorem upload_error_event_raises_no_error_toast:
  "pendingPDFs (handleUploadPDFNew sample_parse_pdf scan_pdf
       (PdfBody [''data: '' @ payload_pdf_error @ [newline, newline]] Done) 7 staged_state)
     = pendingPDFs staged_state
   \<and> pendingImages (handleUploadPDFNew sample_parse_pdf scan_pdf
       (PdfBody [''data: '' @ payload_pdf_error @ [newline, newline]] Done) 7 staged_state)
     = pendingImages staged_state
   \<and> pdfProcessing (handleUploadPDFNew sample_parse_pdf scan_pdf
       (PdfBody [''data: '' @ payload_pdf_error @ [newline, newline]] Done) 7 staged_state)
     = no_processing
   \<and> toast (handleUploadPDFNew sample_parse_pdf scan_pdf
       (PdfBody [''data: '' @ payload_pdf_error @ [newline, newline]] Done) 7 staged_state)
     = Some \<lparr>toast_type = T_info, toast_title = ''PDF Processing'',
             toast_description = Some ''Parsing scan.pdf...''\<rparr>
   \<and> pendingPDFs (handleUploadPDFNew sample_parse_pdf scan_pdf
       (PdfFetchRejected (Error ''Failed to fetch'')) 7 staged_state)
     = pendingPDFs staged_state
   \<and> toast (handleUploadPDFNew sample_parse_pdf scan_pdf
       (PdfFetchRejected (Error ''Failed to fetch'')) 7 staged_state)
     = Some \<lparr>toast_type = T_error, toast_title = ''PDF Processing Failed'',
             toast_description = Some ''Error processing scan.pdf: Failed to fetch''\<rparr>"
proof -
  have seven: "toString 7 = ''7''" by code_simp
  have ev: "handleUploadPDFNew sample_parse_pdf scan_pdf
       (PdfBody [''data: '' @ payload_pdf_error @ [newline, newline]] Done) 7 staged_state
     = staged_state\<lparr>toast := Some \<lparr>toast_type = T_info, toast_title = ''PDF Processing'',
             toast_description = Some ''Parsing scan.pdf...''\<rparr>\<rparr>"
    by (simp add: handleUploadPDFNew_def processPDF_def pdf_final_buffer_def pdf_line_try_def
        sample_parse_pdf_def payload_pdf_error_def payload_progress_def payload_result_def
        event_error_def staged_state_def initial_App_def no_processing_def scan_pdf_def
        newline_def startsWith_def slice_def trim_def is_space_def seven)
  have rej: "handleUploadPDFNew sample_parse_pdf scan_pdf
       (PdfFetchRejected (Error ''Failed to fetch'')) 7 staged_state
     = staged_state\<lparr>toast := Some \<lparr>toast_type = T_error, toast_title = ''PDF Processing Failed'',
             toast_description = Some ''Error processing scan.pdf: Failed to fetch''\<rparr>\<rparr>"
    by (simp add: handleUploadPDFNew_def processPDF_def staged_state_def initial_App_def
        no_processing_def scan_pdf_def seven)
  show ?thesis
    unfolding ev rej by (simp add: staged_state_def initial_App_def)
qed


section \<open>Ids of staged attachments\<close>

lemma digit_val_digit_char: "d < 10 \<Longrightarrow> digit_val (digit_char d) = d"
  by (simp add: digit_val_def digit_char_def)

lemma parseInt_snoc: "parseInt (ds @ [c]) = 10 * parseInt ds + digit_val c"
  by (simp add: parseInt_def)

lemma parseInt_toString: "parseInt (toString n) = n"
proof (induction n rule: toString.induct)
  case (1 n)
  show ?case
  proof (cases "n < 10")
    case True
    then show ?thesis
      by (subst toString.simps) (simp add: parseInt_def digit_val_digit_char)
  next
    case False
    with 1 have "parseInt (toString (n div 10)) = n div 10" by simp
    with False show ?thesis
      by (subst toString.simps) (simp add: parseInt_snoc digit_val_digit_char)
  qed
qed

lemma toString_inj: "toString m = toString n \<Longrightarrow> m = n"
  by (metis parseInt_toString)

lemma pdf_frame_staged_ids: "pdf_frame pid s s' \<Longrightarrow> staged_ids s' = staged_ids s"
  by (simp add: pdf_frame_def staged_ids_def)

lemma ids_inv_shrink:
  assumes "ids_inv X s"
    and "set (map pi_id (pendingImages s')) \<subseteq> set (map pi_id (pendingImages s))"
    and "distinct (map pi_id (pendingImages s)) \<longrightarrow> distinct (map pi_id (pendingImages s'))"
    and "set (map pp_id (pendingPDFs s')) \<subseteq> set (map pp_id (pendingPDFs s))"
    and "distinct (map pp_id (pendingPDFs s)) \<longrightarrow> distinct (map pp_id (pendingPDFs s'))"
    and "set (map pa_id (pendingAudios s')) \<subseteq> set (map pa_id (pendingAudios s))"
    and "distinct (map pa_id (pendingAudios s)) \<longrightarrow> distinct (map pa_id (pendingAudios s'))"
  shows "ids_inv X s'"
proof -
  define A B C A' B' C' where "A = map pi_id (pendingImages s)" and "B = map pp_id (pendingPDFs s)"
    and "C = map pa_id (pendingAudios s)" and "A' = map pi_id (pendingImages s')"
    and "B' = map pp_id (pendingPDFs s')" and "C' = map pa_id (pendingAudios s')"
  have "distinct (A @ B @ C)" "set (A @ B @ C) \<subseteq> X"
    using assms(1) by (simp_all add: ids_inv_def staged_ids_def A_def B_def C_def)
  moreover have "set A' \<subseteq> set A" "distinct A \<longrightarrow> distinct A'" "set B' \<subseteq> set B"
    "distinct B \<longrightarrow> distinct B'" "set C' \<subseteq> set C" "distinct C \<longrightarrow> distinct C'"
    using assms(2-7) by (simp_all only: A_def B_def C_def A'_def B'_def C'_def)
  ultimately have "distinct (A' @ B' @ C')" "set (A' @ B' @ C') \<subseteq> X"
    by (auto simp: distinct_append)
  then show ?thesis
    by (simp add: ids_inv_def staged_ids_def A'_def B'_def C'_def)
qed

lemma ids_inv_same:
  "ids_inv X s \<Longrightarrow> staged_ids s' = staged_ids s \<Longrightarrow> ids_inv X s'"
  by (simp add: ids_inv_def)

lemma ids_inv_mono: "ids_inv X s \<Longrightarrow> X \<subseteq> Y \<Longrightarrow> ids_inv Y s"
  by (auto simp: ids_inv_def)

lemma filter_ids_shrink:
  "set (map f (filter P xs)) \<subseteq> set (map f xs)"
  "distinct (map f xs) \<longrightarrow> distinct (map f (filter P xs))"
  by (auto simp: distinct_map_filter)

lemma ids_inv_image:
  assumes "ids_inv X s" and "i \<notin> X"
  shows "ids_inv (insert i X)
     (s\<lparr>pendingImages := pendingImages s @ [\<lparr>pi_id = i, pi_file = f, pi_dataUrl = d, pi_thumbnail = t\<rparr>],
        toast := x\<rparr>)"
  using assms by (auto simp: ids_inv_def staged_ids_def)

lemma ids_inv_audio:
  assumes "ids_inv X s" and "i \<notin> X"
  shows "ids_inv (insert i X)
     (s\<lparr>pendingAudios := pendingAudios s @
          [\<lparr>pa_id = i, pa_file = f, pa_filename = n, pa_duration = d, pa_transcription = t,
            pa_processed = p\<rparr>],
        toast := x\<rparr>)"
  using assms by (auto simp: ids_inv_def staged_ids_def)

lemma ids_inv_pdf:
  assumes "ids_inv X s" and "i \<notin> X"
  shows "ids_inv (insert i X)
     (s\<lparr>pendingPDFs := pendingPDFs s @
          [\<lparr>pp_id = i, pp_file = f, pp_filename = n, pp_size = z, pp_processed = p, pp_chunks = c\<rparr>],
        toast := x\<rparr>)"
  using assms by (auto simp: ids_inv_def staged_ids_def)

lemma handleUploadImage_inv:
  assumes "ids_inv X s" and "toString now \<notin> X"
  shows "ids_inv (insert (toString now) X) (handleUploadImage file imageData now s)"
proof (cases "isStreaming s")
  case True
  with assms(1) show ?thesis
    by (simp add: handleUploadImage_def) (rule ids_inv_mono, auto)
next
  case False
  with ids_inv_image [OF assms] show ?thesis
    by (simp add: handleUploadImage_def)
qed

lemma handleUploadAudio_inv:
  assumes "ids_inv X s" and "toString now \<notin> X"
  shows "ids_inv (insert (toString now) X) (handleUploadAudio file outcome now s)"
proof (cases outcome)
  case (AudioOk filename duration transcription)
  with ids_inv_audio [OF assms] show ?thesis
    by (simp add: handleUploadAudio_def)
next
  case (AudioNotOk detail)
  have "ids_inv X (handleUploadAudio file outcome now s)"
    using assms(1) by (rule ids_inv_same) (simp add: AudioNotOk handleUploadAudio_def staged_ids_def)
  then show ?thesis by (rule ids_inv_mono) auto
next
  case (AudioFetchRejected err)
  have "ids_inv X (handleUploadAudio file outcome now s)"
    using assms(1) by (rule ids_inv_same) (simp add: AudioFetchRejected handleUploadAudio_def staged_ids_def)
  then show ?thesis by (rule ids_inv_mono) auto
qed

lemma handleUploadPDFNew_inv:
  assumes "ids_inv X s" and "toString now \<notin> X"
  shows "ids_inv (insert (toString now) X) (handleUploadPDFNew parse file tr now s)"
proof -
  let ?pdf = "\<lparr>pp_id = toString now, pp_file = file, pp_filename = file_name file,
               pp_size = file_size file, pp_processed = Some False, pp_chunks = None\<rparr>"
  let ?s1 = "s\<lparr>pendingPDFs := pendingPDFs s @ [?pdf],
               toast := Some \<lparr>toast_type = T_info, toast_title = ''PDF Processing'',
                   toast_description = Some (''Parsing '' @ file_name file @ ''...'')\<rparr>\<rparr>"
  have s1: "ids_inv (insert (toString now) X) ?s1"
    using assms by (rule ids_inv_pdf)
  obtain r s2 where p: "processPDF parse ?pdf tr ?s1 = (r, s2)"
    by (cases "processPDF parse ?pdf tr ?s1")
  have "staged_ids s2 = staged_ids ?s1"
    using processPDF_frame(1) [OF p] by (rule pdf_frame_staged_ids)
  with s1 have s2: "ids_inv (insert (toString now) X) s2"
    by (rule ids_inv_same)
  have removed: "ids_inv (insert (toString now) X)
      (s2\<lparr>pendingPDFs := filter (\<lambda>p. pp_id p \<noteq> toString now) (pendingPDFs s2)\<rparr>)"
    using s2 by (rule ids_inv_shrink) (simp_all add: filter_ids_shrink del: set_map)
  have marked: "ids_inv (insert (toString now) X) ((mark_processed (toString now) c s2)\<lparr>toast := t\<rparr>)" for c t
    using s2 by (rule ids_inv_same) (simp add: staged_ids_def mark_processed_def map_id_mark)
  have unchanged: "ids_inv (insert (toString now) X) s"
    using assms(1) by (rule ids_inv_mono) auto
  have toasted: "ids_inv (insert (toString now) X) (s\<lparr>toast := t\<rparr>)" for t
    using unchanged by (rule ids_inv_same) (simp add: staged_ids_def)
  show ?thesis
  proof (cases "isStreaming s \<or> isProcessing (pdfProcessing s)")
    case True
    with unchanged show ?thesis by (simp add: handleUploadPDFNew_def)
  next
    case guard: False
    show ?thesis
    proof (cases "file_size file > 50 * 1024 * 1024")
      case True
      with guard toasted show ?thesis by (simp add: handleUploadPDFNew_def)
    next
      case False
      show ?thesis
        unfolding handleUploadPDFNew_def Let_def p
        using guard False removed marked
        by (auto split: sum.splits option.splits)
    qed
  qed
qed

lemma handleSend_begin_inv:
  assumes "ids_inv X s"
  shows "ids_inv X (fst (handleSend_begin parse net clock now1 now2 s))"
proof (cases "send_blocked s")
  case True
  with assms show ?thesis by (simp add: handleSend_begin_def)
next
  case False
  let ?s1 = "s\<lparr>messages := messages s @ [userMessage now1 s, assistantMessage now2],
                inputValue := [], pendingImages := [], pendingAudios := [],
                isStreaming := True\<rparr>"
  obtain chunks s' where c: "collect_pdfs parse net clock (pendingPDFs s) [] ?s1 = (chunks, s')"
    by (cases "collect_pdfs parse net clock (pendingPDFs s) [] ?s1")
  have s': "fst (handleSend_begin parse net clock now1 now2 s) = s'"
    using False c by (simp add: handleSend_begin_def)
  from collect_pdfs_frame [OF c] have
    "pendingImages s' = []" "pendingAudios s' = []"
    "set (map pp_id (pendingPDFs s')) \<subseteq> set (map pp_id (pendingPDFs s))"
    "distinct (map pp_id (pendingPDFs s)) \<longrightarrow> distinct (map pp_id (pendingPDFs s'))"
    by simp_all
  with assms show ?thesis
    unfolding s' by (intro ids_inv_shrink [of X s s']) simp_all
qed

lemma on_chunk_inv:
  assumes "ids_inv X s"
  shows "ids_inv X (snd (fst (on_chunk aid chunk (fullContent, s))))"
  using assms
  by (rule ids_inv_shrink) (auto simp: on_chunk_def update_message_def)

lemma step_event_inv:
  assumes "ids_inv (toString ` T) s" and "set (id_clock e) \<inter> T = {}"
  shows "ids_inv (toString ` (T \<union> set (id_clock e))) (step_event parse e s)"
proof (cases e)
  case (UploadImage fl imageData now)
  with assms(2) have "toString now \<notin> toString ` T" by (auto dest: toString_inj)
  from handleUploadImage_inv [OF assms(1) this] UploadImage show ?thesis by simp
next
  case (UploadPDF fl tr now)
  with assms(2) have "toString now \<notin> toString ` T" by (auto dest: toString_inj)
  from handleUploadPDFNew_inv [OF assms(1) this] UploadPDF show ?thesis by simp
next
  case (UploadAudio fl outcome now)
  with assms(2) have "toString now \<notin> toString ` T" by (auto dest: toString_inj)
  from handleUploadAudio_inv [OF assms(1) this] UploadAudio show ?thesis by simp
next
  case (RemoveImage i)
  have "ids_inv (toString ` T) (onRemoveImage i s)"
    using assms(1) by (rule ids_inv_shrink) (simp_all add: onRemoveImage_def filter_ids_shrink del: set_map)
  with RemoveImage show ?thesis by simp
next
  case (RemovePDF i)
  have "ids_inv (toString ` T) (onRemovePDF i s)"
    using assms(1) by (rule ids_inv_shrink) (simp_all add: onRemovePDF_def filter_ids_shrink del: set_map)
  with RemovePDF show ?thesis by simp
next
  case (RemoveAudio i)
  have "ids_inv (toString ` T) (onRemoveAudio i s)"
    using assms(1) by (rule ids_inv_shrink) (simp_all add: onRemoveAudio_def filter_ids_shrink del: set_map)
  with RemoveAudio show ?thesis by simp
next
  case (Send net clock now1 now2)
  with handleSend_begin_inv [OF assms(1)] show ?thesis by simp
next
  case (Frame aid fullContent chunk)
  with on_chunk_inv [OF assms(1)] show ?thesis by simp
next
  case Stop
  have "ids_inv (toString ` T) (handleStop s)"
    using assms(1) by (rule ids_inv_same) (simp add: handleStop_def staged_ids_def)
  with Stop show ?thesis by simp
qed

lemma run_inv:
  assumes "ids_inv (toString ` T) s" and "distinct (concat (map id_clock es))"
    and "set (concat (map id_clock es)) \<inter> T = {}"
  shows "ids_inv (toString ` (T \<union> set (concat (map id_clock es)))) (run parse es s)"
  using assms
proof (induction es arbitrary: s T)
  case Nil
  then show ?case by simp
next
  case (Cons e es)
  have e: "set (id_clock e) \<inter> T = {}" using Cons.prems(3) by auto
  have step: "ids_inv (toString ` (T \<union> set (id_clock e))) (step_event parse e s)"
    using Cons.prems(1) e by (rule step_event_inv)
  have d: "distinct (concat (map id_clock es))" using Cons.prems(2) by simp
  have disj: "set (concat (map id_clock es)) \<inter> (T \<union> set (id_clock e)) = {}"
    using Cons.prems(2,3) by auto
  from Cons.IH [OF step d disj] show ?case
    by (simp add: Un_assoc)
qed

text \<open>
  C9, as the code has it. The id of a staged attachment is the decimal rendering of the
  reading of the clock when it is staged. In every state the staging pipeline reaches
  from the initial one, the ids of all staged attachments (images, documents, audios)
  are pairwise distinct, provided no two attachments were given the same reading.
\<close>

theorem staged_ids_distinct:
  assumes "distinct (concat (map id_clock es))"
  shows "distinct (staged_ids (run parse es initial_App))"
proof -
  have "ids_inv (toString ` {}) initial_App"
    by (simp add: ids_inv_def staged_ids_def initial_App_def)
  from run_inv [OF this assms, of parse] show ?thesis
    by (simp add: ids_inv_def)
qed

theorem staged_ids_distinct_witness:
  "staged_ids (run sample_parse_pdf
       [UploadImage photo_png ''data:image/png;base64,AA'' 5,
        UploadAudio memo_m4a (AudioOk ''memo.m4a'' 12 ''call the office'') 6,
        RemoveImage ''4'']
       initial_App) = [''5'', ''6'']
   \<and> distinct (staged_ids (run sample_parse_pdf
       [UploadImage photo_png ''data:image/png;base64,AA'' 5,
        UploadAudio memo_m4a (AudioOk ''memo.m4a'' 12 ''call the office'') 6,
        RemoveImage ''4'']
       initial_App))"
proof -
  have h: "distinct (concat (map id_clock
       [UploadImage photo_png ''data:image/png;base64,AA'' 5,
        UploadAudio memo_m4a (AudioOk ''memo.m4a'' 12 ''call the office'') 6,
        RemoveImage ''4'']))"
    by simp
  have five: "toString 5 = ''5''" and six: "toString 6 = ''6''" by code_simp+
  have "staged_ids (run sample_parse_pdf
       [UploadImage photo_png ''data:image/png;base64,AA'' 5,
        UploadAudio memo_m4a (AudioOk ''memo.m4a'' 12 ''call the office'') 6,
        RemoveImage ''4'']
       initial_App) = [''5'', ''6'']"
    by (simp add: handleUploadImage_def handleUploadAudio_def onRemoveImage_def staged_ids_def
        initial_App_def five six)
  with staged_ids_distinct [OF h, of sample_parse_pdf] show ?thesis by simp
qed

text \<open>
  C9, as stated, fails: an image and an audio staged at the same millisecond get the
  same id, and so do two images.
\<close>

theorem staged_ids_counterexample:
  "staged_ids (run sample_parse_pdf
       [UploadImage photo_png ''data:image/png;base64,AA'' 5,
        UploadAudio memo_m4a (AudioOk ''memo.m4a'' 12 ''call the office'') 5]
       initial_App) = [''5'', ''5'']
   \<and> staged_ids (run sample_parse_pdf
       [UploadImage photo_png ''data:image/png;base64,AA'' 5,
        UploadImage photo_png ''data:image/png;base64,AA'' 5]
       initial_App) = [''5'', ''5'']
   \<and> \<not> distinct [''5'', ''5'']"
proof -
  have five: "toString 5 = ''5''" by code_simp
  show ?thesis
    by (simp add: handleUploadImage_def handleUploadAudio_def staged_ids_def initial_App_def five)
qed


end
